theory Spec2Isabelle
  imports Main
begin

section \<open>Data model (src/migrations/0001\_create\_tables.sql, types.ts)\<close>

text \<open>
  The \<open>status\<close> column of \<open>generation_jobs\<close> is a TEXT column with a CHECK constraint
  over four literals; the code only ever binds these four literals.
\<close>

datatype job_status = Pending | Processing | Completed | Failed

text \<open>
  A row of \<open>generation_jobs\<close> (interface GenerationJob). \<open>image_url\<close> and \<open>error\<close> are
  nullable columns; timestamps are milliseconds (\<open>Date.now()\<close>). Strings are lists of
  characters, one element per code unit, so \<open>length\<close> is the \<open>.length\<close> that Zod compares.
\<close>

record GenerationJob =
  j_id :: string
  j_status :: job_status
  j_prompt :: string
  j_model :: string
  j_image_url :: "string option"
  j_error :: "string option"
  j_created_at :: int
  j_updated_at :: int

text \<open>A row of \<open>generations\<close> (interface Generation).\<close>

record Generation =
  g_id :: string
  g_job_id :: string
  g_image_url :: string
  g_prompt :: string
  g_model :: string
  g_created_at :: int

text \<open>The queue message (interface ImageGenerationMessage).\<close>

record ImageGenerationMessage =
  m_jobId :: string
  m_prompt :: string
  m_model :: string

text \<open>
  The bindings of \<open>Env\<close> that hold state: the two tables of the D1 database, each in
  row order, and the messages sent to \<open>IMAGE_QUEUE\<close>, in send order.
\<close>

record Env =
  generation_jobs :: "GenerationJob list"
  generations :: "Generation list"
  IMAGE_QUEUE :: "ImageGenerationMessage list"

text \<open>
  What a \<open>throw\<close> carries: a failed Zod parse, an error of a D1 statement, an error of
  \<open>IMAGE_QUEUE.send\<close>, or a plain \<open>Error\<close> with its message.
\<close>

datatype exn = ZodError | D1Error string | QueueError string | Error string

section \<open>Tool arguments and the Zod schemas\<close>

text \<open>
  \<open>args\<close> has type \<open>any\<close>. A field is absent (\<open>undefined\<close>), a string, an integral
  number, an array, or anything else (null, booleans, fractional numbers, objects).
\<close>

datatype jsval = JString string | JInt int | JArray "jsval list" | JOther

type_synonym args = "string \<Rightarrow> jsval option"

record GenerateImageParams =
  p_prompt :: string
  p_model :: string
  p_count :: int

definition model_enum :: "string list" where
  "model_enum = [''flux-schnell'', ''sdxl-lightning'', ''sdxl-base'']"

text \<open>\<open>prompt: z.string().min(3).max(1000)\<close>\<close>

definition parse_prompt :: "jsval option \<Rightarrow> string option" where
  "parse_prompt v =
     (case v of
        Some (JString s) \<Rightarrow> if 3 \<le> length s \<and> length s \<le> 1000 then Some s else None
      | _ \<Rightarrow> None)"

text \<open>\<open>model: z.enum([...]).optional().default('flux-schnell')\<close>\<close>

definition parse_model :: "jsval option \<Rightarrow> string option" where
  "parse_model v =
     (case v of
        None \<Rightarrow> Some ''flux-schnell''
      | Some (JString s) \<Rightarrow> if s \<in> set model_enum then Some s else None
      | _ \<Rightarrow> None)"

text \<open>\<open>count: z.number().int().min(1).max(20).optional().default(1)\<close>\<close>

definition parse_count :: "jsval option \<Rightarrow> int option" where
  "parse_count v =
     (case v of
        None \<Rightarrow> Some 1
      | Some (JInt n) \<Rightarrow> if 1 \<le> n \<and> n \<le> 20 then Some n else None
      | _ \<Rightarrow> None)"

definition GenerateImageSchema_parse :: "args \<Rightarrow> exn + GenerateImageParams" where
  "GenerateImageSchema_parse a =
     (case (parse_prompt (a ''prompt''), parse_model (a ''model''), parse_count (a ''count'')) of
        (Some p, Some m, Some c) \<Rightarrow> Inr \<lparr>p_prompt = p, p_model = m, p_count = c\<rparr>
      | _ \<Rightarrow> Inl ZodError)"

text \<open>\<open>limit: z.number().int().min(1).max(50).optional().default(10)\<close>\<close>

definition parse_limit :: "jsval option \<Rightarrow> int option" where
  "parse_limit v =
     (case v of
        None \<Rightarrow> Some 10
      | Some (JInt n) \<Rightarrow> if 1 \<le> n \<and> n \<le> 50 then Some n else None
      | _ \<Rightarrow> None)"

text \<open>\<open>offset: z.number().int().min(0).optional().default(0)\<close>\<close>

definition parse_offset :: "jsval option \<Rightarrow> int option" where
  "parse_offset v =
     (case v of
        None \<Rightarrow> Some 0
      | Some (JInt n) \<Rightarrow> if 0 \<le> n then Some n else None
      | _ \<Rightarrow> None)"

definition ListGenerationsSchema_parse :: "args \<Rightarrow> exn + int \<times> int" where
  "ListGenerationsSchema_parse a =
     (case (parse_limit (a ''limit''), parse_offset (a ''offset'')) of
        (Some l, Some off) \<Rightarrow> Inr (l, off)
      | _ \<Rightarrow> Inl ZodError)"

text \<open>
  \<open>status: z.enum(['all', 'pending', 'processing', 'completed', 'failed'])
  .optional().default('all')\<close>; \<open>None\<close> stands for \<open>'all'\<close>.
\<close>

definition parse_status :: "jsval option \<Rightarrow> job_status option option" where
  "parse_status v =
     (case v of
        None \<Rightarrow> Some None
      | Some (JString s) \<Rightarrow>
          if s = ''all'' then Some None
          else if s = ''pending'' then Some (Some Pending)
          else if s = ''processing'' then Some (Some Processing)
          else if s = ''completed'' then Some (Some Completed)
          else if s = ''failed'' then Some (Some Failed)
          else None
      | _ \<Rightarrow> None)"

definition ListJobsSchema_parse :: "args \<Rightarrow> exn + job_status option \<times> int \<times> int" where
  "ListJobsSchema_parse a =
     (case (parse_status (a ''status''), parse_limit (a ''limit''), parse_offset (a ''offset'')) of
        (Some f, Some l, Some off) \<Rightarrow> Inr (f, l, off)
      | _ \<Rightarrow> Inl ZodError)"

text \<open>
  \<open>z.union([z.object({ job_id: z.string() }),
  z.object({ job_ids: z.array(z.string()).min(1).max(20) })])\<close>: the first member that
  parses wins, so a string \<open>job_id\<close> selects the single form whatever \<open>job_ids\<close> holds.
\<close>

datatype WaitParams = Single string | Multi "string list"

fun js_strings :: "jsval list \<Rightarrow> string list option" where
  "js_strings [] = Some []"
| "js_strings (JString s # vs) = map_option ((#) s) (js_strings vs)"
| "js_strings (_ # vs) = None"

definition WaitForCompletionSchema_parse :: "args \<Rightarrow> exn + WaitParams" where
  "WaitForCompletionSchema_parse a =
     (case a ''job_id'' of
        Some (JString s) \<Rightarrow> Inr (Single s)
      | _ \<Rightarrow>
         (case a ''job_ids'' of
            Some (JArray vs) \<Rightarrow>
              (case js_strings vs of
                 Some ids \<Rightarrow> if 1 \<le> length ids \<and> length ids \<le> 20 then Inr (Multi ids)
                             else Inl ZodError
               | None \<Rightarrow> Inl ZodError)
          | _ \<Rightarrow> Inl ZodError))"

section \<open>Responses\<close>

text \<open>
  One constructor per JSON envelope that \<open>callImageTool\<close> builds. Constant fields
  (\<open>success\<close>, \<open>message\<close>, \<open>estimated_time_seconds\<close>) are fixed by the constructor;
  \<open>JobsNotFound\<close>, \<open>JobFailed\<close>, \<open>JobsFailed\<close>, \<open>Timeout\<close> and \<open>Failure\<close> are the envelopes
  with \<open>success: false\<close> and \<open>isError: true\<close>. An array element that does not exist is
  \<open>undefined\<close> in JavaScript and is dropped by \<open>JSON.stringify\<close>: \<open>None\<close> here.
\<close>

datatype response =
    GenerateStarted "string option" string string
  | GenerateStartedMany "string list" int string string
  | ListGenerations int int bool int int "Generation list"
  | ListJobs "job_status option" int int bool int int "GenerationJob list"
  | JobsNotFound
  | JobFailed string
  | JobsFailed nat "(string \<times> string option) list" "(string \<times> string option) list"
  | JobCompleted "string option" string string
  | JobsCompleted nat "(string \<times> string option \<times> string \<times> string) list"
  | Timeout int
  | Failure exn

section \<open>The D1 statements and the queue producer\<close>

text \<open>
  Every D1 statement and every \<open>send\<close> can throw. Whether it does is decided outside the
  program, so each operation takes the error the environment raises (\<open>None\<close>: the
  statement runs). An INSERT also throws when the PRIMARY KEY is already present.
\<close>

definition D1_insert_job ::
  "string option \<Rightarrow> GenerationJob \<Rightarrow> GenerationJob list \<Rightarrow> exn + GenerationJob list" where
  "D1_insert_job err row tbl =
     (case err of
        Some msg \<Rightarrow> Inl (D1Error msg)
      | None \<Rightarrow>
          if j_id row \<in> set (map j_id tbl)
          then Inl (D1Error ''UNIQUE constraint failed: generation_jobs.id'')
          else Inr (tbl @ [row]))"

definition Queue_send ::
  "string option \<Rightarrow> ImageGenerationMessage \<Rightarrow> ImageGenerationMessage list
     \<Rightarrow> exn + ImageGenerationMessage list" where
  "Queue_send err msg q = (case err of Some m \<Rightarrow> Inl (QueueError m) | None \<Rightarrow> Inr (q @ [msg]))"

text \<open>\<open>xs[i]\<close> of JavaScript: \<open>undefined\<close> out of range.\<close>

definition js_index :: "'a list \<Rightarrow> nat \<Rightarrow> 'a option" where
  "js_index xs i = (if i < length xs then Some (xs ! i) else None)"

section \<open>Tool \<open>generate_image\<close>\<close>

text \<open>
  What the call reads from outside: \<open>Date.now()\<close>, the result of the i-th call of
  \<open>crypto.randomUUID()\<close>, and the errors raised by the i-th INSERT and the i-th \<open>send\<close>.
\<close>

record gen_env =
  ge_now :: int
  ge_randomUUID :: "nat \<Rightarrow> string"
  ge_insert_error :: "nat \<Rightarrow> string option"
  ge_send_error :: "nat \<Rightarrow> string option"

definition new_job :: "GenerateImageParams \<Rightarrow> int \<Rightarrow> string \<Rightarrow> GenerationJob" where
  "new_job p now jobId =
     \<lparr>j_id = jobId, j_status = Pending, j_prompt = p_prompt p, j_model = p_model p,
      j_image_url = None, j_error = None, j_created_at = now, j_updated_at = now\<rparr>"

definition new_message :: "GenerateImageParams \<Rightarrow> string \<Rightarrow> ImageGenerationMessage" where
  "new_message p jobId = \<lparr>m_jobId = jobId, m_prompt = p_prompt p, m_model = p_model p\<rparr>"

text \<open>
  The loop \<open>for (let i = 0; i < params.count; i++)\<close>. A throw leaves the loop with the
  bindings as they are at that point: nothing is rolled back.
\<close>

function create_jobs ::
  "gen_env \<Rightarrow> GenerateImageParams \<Rightarrow> nat \<Rightarrow> string list \<Rightarrow> Env \<Rightarrow> (exn + string list) \<times> Env" where
  "create_jobs e p i jobIds env =
     (if int i < p_count p then
        (let jobId = ge_randomUUID e i; jobIds' = jobIds @ [jobId] in
         case D1_insert_job (ge_insert_error e i) (new_job p (ge_now e) jobId) (generation_jobs env) of
           Inl x \<Rightarrow> (Inl x, env)
         | Inr tbl \<Rightarrow>
            (let env1 = env\<lparr>generation_jobs := tbl\<rparr> in
             case Queue_send (ge_send_error e i) (new_message p jobId) (IMAGE_QUEUE env1) of
               Inl x \<Rightarrow> (Inl x, env1)
             | Inr q \<Rightarrow> create_jobs e p (Suc i) jobIds' (env1\<lparr>IMAGE_QUEUE := q\<rparr>)))
      else (Inr jobIds, env))"
  by pat_completeness auto
termination
  by (relation "measure (\<lambda>(e, p, i, jobIds, env). nat (p_count p) - i)") auto

text \<open>
  The \<open>generate_image\<close> case of \<open>callImageTool\<close>, with the \<open>catch\<close> that turns any throw
  into the failure envelope.
\<close>

definition generate_image :: "gen_env \<Rightarrow> args \<Rightarrow> Env \<Rightarrow> response \<times> Env" where
  "generate_image e a env =
     (case GenerateImageSchema_parse a of
        Inl x \<Rightarrow> (Failure x, env)
      | Inr p \<Rightarrow>
         (case create_jobs e p 0 [] env of
            (Inl x, env') \<Rightarrow> (Failure x, env')
          | (Inr jobIds, env') \<Rightarrow>
              if p_count p = 1
              then (GenerateStarted (js_index jobIds 0) (p_prompt p) (p_model p), env')
              else (GenerateStartedMany jobIds (p_count p) (p_prompt p) (p_model p), env')))"

section \<open>Tools \<open>list_generations\<close> and \<open>list_jobs\<close>\<close>

text \<open>
  \<open>ORDER BY created_at DESC LIMIT ? OFFSET ?\<close>. SQL leaves the order of rows with equal
  \<open>created_at\<close> open; the model keeps them in row order.
\<close>

definition order_by_desc :: "('a \<Rightarrow> int) \<Rightarrow> 'a list \<Rightarrow> 'a list" where
  "order_by_desc key rows = sort_key (\<lambda>r. - key r) rows"

definition limit_offset :: "int \<Rightarrow> int \<Rightarrow> 'a list \<Rightarrow> 'a list" where
  "limit_offset l off rows = take (nat l) (drop (nat off) rows)"

text \<open>
  D1 binds a JavaScript number to an SQLite value, and LIMIT and OFFSET take a 64-bit
  integer. An integral number of \<open>2^63\<close> or more is not one: the statement fails with a
  datatype mismatch and throws. Validation keeps \<open>limit\<close> at most 50 but puts no upper
  bound on \<open>offset\<close>.
\<close>

definition D1_select_page :: "int \<Rightarrow> int \<Rightarrow> 'a list \<Rightarrow> exn + 'a list" where
  "D1_select_page l off rows =
     (if 2 ^ 63 \<le> l \<or> 2 ^ 63 \<le> off then Inl (D1Error ''datatype mismatch'')
      else Inr (limit_offset l off rows))"

text \<open>
  \<open>d1_error\<close> is an error the environment raises in one of the two statements; the
  SELECT of the page can also throw by itself, as above.
\<close>

definition list_generations :: "string option \<Rightarrow> args \<Rightarrow> Env \<Rightarrow> response" where
  "list_generations d1_error a env =
     (case ListGenerationsSchema_parse a of
        Inl x \<Rightarrow> Failure x
      | Inr (l, off) \<Rightarrow>
         (case d1_error of
            Some msg \<Rightarrow> Failure (D1Error msg)
          | None \<Rightarrow>
             (let totalCount = int (length (generations env)) in
              case D1_select_page l off (order_by_desc g_created_at (generations env)) of
                Inl x \<Rightarrow> Failure x
              | Inr results \<Rightarrow>
                  ListGenerations totalCount (int (length results))
                    (off + int (length results) < totalCount) l off results)))"

text \<open>\<open>whereClause\<close>: empty for \<open>'all'\<close>, \<open>WHERE status = ?\<close> otherwise.\<close>

definition where_status :: "job_status option \<Rightarrow> GenerationJob list \<Rightarrow> GenerationJob list" where
  "where_status f rows = (case f of None \<Rightarrow> rows | Some s \<Rightarrow> filter (\<lambda>j. j_status j = s) rows)"

definition list_jobs :: "string option \<Rightarrow> args \<Rightarrow> Env \<Rightarrow> response" where
  "list_jobs d1_error a env =
     (case ListJobsSchema_parse a of
        Inl x \<Rightarrow> Failure x
      | Inr (f, l, off) \<Rightarrow>
         (case d1_error of
            Some msg \<Rightarrow> Failure (D1Error msg)
          | None \<Rightarrow>
             (let totalCount = int (length (where_status f (generation_jobs env))) in
              case D1_select_page l off
                     (order_by_desc j_created_at (where_status f (generation_jobs env))) of
                Inl x \<Rightarrow> Failure x
              | Inr results \<Rightarrow>
                  ListJobs f totalCount (int (length results))
                    (off + int (length results) < totalCount) l off results)))"

section \<open>Tool \<open>wait_for_completion\<close>\<close>

text \<open>
  What the call reads from outside. The table is written by the queue consumer while the
  call polls, so the environment gives the content of \<open>generation_jobs\<close> at the i-th
  SELECT, the error that SELECT raises, the milliseconds that pass while it is awaited,
  and the milliseconds by which the i-th timer fires later than the delay asked for
  (\<open>setTimeout\<close> promises no less than the delay). Synchronous code takes no time.
\<close>

record wait_env =
  we_jobs :: "nat \<Rightarrow> GenerationJob list"
  we_query_error :: "nat \<Rightarrow> string option"
  we_query_ms :: "nat \<Rightarrow> nat"
  we_timer_late :: "nat \<Rightarrow> nat"

definition BASE_TIMEOUT :: nat where "BASE_TIMEOUT = 60000"
definition PER_JOB_TIMEOUT :: nat where "PER_JOB_TIMEOUT = 3000"
definition POLL_INTERVAL :: nat where "POLL_INTERVAL = 3000"

definition MAX_WAIT :: "string list \<Rightarrow> nat" where
  "MAX_WAIT jobIds = BASE_TIMEOUT + length jobIds * PER_JOB_TIMEOUT"

text \<open>
  \<open>SELECT * FROM generation_jobs WHERE id IN (?, ..., ?)\<close>: the rows of the table whose id
  is one of the bound values, each row once, however often its id is bound.
\<close>

definition select_in :: "string list \<Rightarrow> GenerationJob list \<Rightarrow> GenerationJob list" where
  "select_in jobIds tbl = filter (\<lambda>j. j_id j \<in> set jobIds) tbl"

text \<open>\<open>failed[0].error || 'Generation failed'\<close>: null and the empty string are falsy.\<close>

definition error_or_default :: "string option \<Rightarrow> string" where
  "error_or_default err = (case err of None \<Rightarrow> ''Generation failed'' | Some m \<Rightarrow>
     if m = [] then ''Generation failed'' else m)"

text \<open>
  The body of the \<open>while\<close> loop after the SELECT: \<open>Some r\<close> when it returns \<open>r\<close>, \<open>None\<close>
  when it falls through to the timer. \<open>completed[0]\<close> of an empty array is \<open>undefined\<close>,
  and reading a field of it throws a TypeError.
\<close>

definition check_jobs :: "bool \<Rightarrow> string list \<Rightarrow> GenerationJob list \<Rightarrow> response option" where
  "check_jobs isSingle jobIds results =
     (if length results \<noteq> length jobIds then Some JobsNotFound
      else
        (let completed = filter (\<lambda>j. j_status j = Completed) results;
             failed = filter (\<lambda>j. j_status j = Failed) results;
             pending = filter (\<lambda>j. j_status j = Pending \<or> j_status j = Processing) results
         in if length failed > 0 then
              (if isSingle then Some (JobFailed (error_or_default (j_error (hd failed))))
               else Some (JobsFailed (length failed)
                            (map (\<lambda>j. (j_id j, j_error j)) failed)
                            (map (\<lambda>j. (j_id j, j_image_url j)) completed)))
            else if length pending = 0 then
              (if isSingle then
                 (case completed of
                    [] \<Rightarrow> Some (Failure (Error ''TypeError''))
                  | job # _ \<Rightarrow> Some (JobCompleted (j_image_url job) (j_prompt job) (j_model job)))
               else Some (JobsCompleted (length completed)
                            (map (\<lambda>j. (j_id j, j_image_url j, j_prompt j, j_model j)) completed)))
            else None))"

text \<open>
  The loop \<open>while (Date.now() - startTime < MAX_WAIT)\<close>, at the start of iteration \<open>i\<close>
  with \<open>elapsed = Date.now() - startTime\<close>. The result is the response, the milliseconds
  since \<open>startTime\<close> at which the call returns, and the number of timers it has awaited.
\<close>

function wait_loop ::
  "wait_env \<Rightarrow> bool \<Rightarrow> string list \<Rightarrow> nat \<Rightarrow> nat \<Rightarrow> response \<times> nat \<times> nat" where
  "wait_loop e isSingle jobIds i elapsed =
     (if elapsed < MAX_WAIT jobIds then
        (case we_query_error e i of
           Some msg \<Rightarrow> (Failure (D1Error msg), elapsed + we_query_ms e i, i)
         | None \<Rightarrow>
            (case check_jobs isSingle jobIds (select_in jobIds (we_jobs e i)) of
               Some r \<Rightarrow> (r, elapsed + we_query_ms e i, i)
             | None \<Rightarrow>
                 wait_loop e isSingle jobIds (Suc i)
                   (elapsed + we_query_ms e i + POLL_INTERVAL + we_timer_late e i)))
      else (Timeout (int ((MAX_WAIT jobIds + 500) div 1000)), elapsed, i))"
  by pat_completeness auto
termination
  by (relation "measure (\<lambda>(e, isSingle, jobIds, i, elapsed). MAX_WAIT jobIds - elapsed)")
    (auto simp: POLL_INTERVAL_def)

text \<open>
  The \<open>wait_for_completion\<close> case of \<open>callImageTool\<close>. \<open>Math.round(MAX_WAIT / 1000)\<close> rounds
  half up.
\<close>

definition isSingle :: "WaitParams \<Rightarrow> bool" where
  "isSingle params = (case params of Single job_id \<Rightarrow> True | Multi job_ids \<Rightarrow> False)"

definition jobIds_of :: "WaitParams \<Rightarrow> string list" where
  "jobIds_of params = (case params of Single job_id \<Rightarrow> [job_id] | Multi job_ids \<Rightarrow> job_ids)"

definition wait_for_completion :: "wait_env \<Rightarrow> args \<Rightarrow> response \<times> nat \<times> nat" where
  "wait_for_completion e a =
     (case WaitForCompletionSchema_parse a of
        Inl x \<Rightarrow> (Failure x, 0, 0)
      | Inr params \<Rightarrow> wait_loop e (isSingle params) (jobIds_of params) 0 0)"

text \<open>
  A wait that can only end in a timeout: every SELECT runs and finds every named job, none
  of them has failed, and one of them is still pending or processing.
\<close>

definition never_done :: "wait_env \<Rightarrow> string list \<Rightarrow> bool" where
  "never_done e ids \<longleftrightarrow>
     (\<forall>i. we_query_error e i = None
        \<and> length (select_in ids (we_jobs e i)) = length ids
        \<and> (\<forall>j \<in> set (select_in ids (we_jobs e i)). j_status j \<noteq> Failed)
        \<and> (\<exists>j \<in> set (select_in ids (we_jobs e i)). j_status j = Pending \<or> j_status j = Processing))"

section \<open>The queue consumer\<close>

text \<open>The UPDATE statements of the consumer; \<open>WHERE id = ?\<close> touches the rows with that id.\<close>

definition D1_update_processing :: "int \<Rightarrow> string \<Rightarrow> GenerationJob list \<Rightarrow> GenerationJob list" where
  "D1_update_processing now jobId tbl =
     map (\<lambda>j. if j_id j = jobId then j\<lparr>j_status := Processing, j_updated_at := now\<rparr> else j) tbl"

definition D1_update_completed ::
  "string \<Rightarrow> int \<Rightarrow> string \<Rightarrow> GenerationJob list \<Rightarrow> GenerationJob list" where
  "D1_update_completed url now jobId tbl =
     map (\<lambda>j. if j_id j = jobId
              then j\<lparr>j_status := Completed, j_image_url := Some url, j_updated_at := now\<rparr>
              else j) tbl"

definition D1_update_failed ::
  "string \<Rightarrow> int \<Rightarrow> string \<Rightarrow> GenerationJob list \<Rightarrow> GenerationJob list" where
  "D1_update_failed errorMessage now jobId tbl =
     map (\<lambda>j. if j_id j = jobId
              then j\<lparr>j_status := Failed, j_error := Some errorMessage, j_updated_at := now\<rparr>
              else j) tbl"

text \<open>
  \<open>INSERT INTO generations\<close>: \<open>id\<close> is the PRIMARY KEY, and \<open>job_id\<close> is a FOREIGN KEY into
  \<open>generation_jobs(id)\<close>, which D1 enforces.
\<close>

definition D1_insert_generation ::
  "string option \<Rightarrow> Generation \<Rightarrow> GenerationJob list \<Rightarrow> Generation list \<Rightarrow> exn + Generation list" where
  "D1_insert_generation err row jobs tbl =
     (case err of
        Some msg \<Rightarrow> Inl (D1Error msg)
      | None \<Rightarrow>
          if g_id row \<in> set (map g_id tbl)
          then Inl (D1Error ''UNIQUE constraint failed: generations.id'')
          else if g_job_id row \<notin> set (map j_id jobs)
          then Inl (D1Error ''FOREIGN KEY constraint failed'')
          else Inr (tbl @ [row]))"

text \<open>\<open>error instanceof Error ? error.message : 'Unknown error'\<close>\<close>

fun error_message :: "exn \<Rightarrow> string" where
  "error_message ZodError = ''ZodError''"
| "error_message (D1Error m) = m"
| "error_message (QueueError m) = m"
| "error_message (Error m) = m"

text \<open>
  What one run of the loop body of \<open>queue\<close> reads from outside, in program order: the
  clock and the D1 error of Step 1, the error thrown by \<open>generateImage\<close>, the error thrown
  by \<open>uploadImage\<close> or its \<open>downloadUrl\<close>, the clock and the D1 error of Step 4, the
  \<open>crypto.randomUUID()\<close> and the D1 error of Step 5, and the clock and the D1 error of the
  UPDATE in the \<open>catch\<close> block.
\<close>

record consumer_env =
  ce_now_processing :: int
  ce_processing_error :: "string option"
  ce_generateImage_error :: "string option"
  ce_uploadImage :: "string + string"
  ce_now_completed :: int
  ce_completed_error :: "string option"
  ce_randomUUID :: string
  ce_generation_error :: "string option"
  ce_now_failed :: int
  ce_failed_error :: "string option"

text \<open>
  Where a run of the loop body stands: before Step 1 (UPDATE to processing), before
  \<open>generateImage\<close>, before \<open>uploadImage\<close>, before Step 4 (UPDATE to completed, with the
  download URL), before Step 5 (INSERT into generations), in the \<open>catch\<close> block with the
  error message, after \<open>message.ack()\<close>, after \<open>message.retry()\<close>.
\<close>

datatype pc = Step1 | Step2 | Step3 | Step4 string | Step5 string | Catch string | Acked | Retried

record invocation =
  inv_msg :: ImageGenerationMessage
  inv_env :: consumer_env
  inv_pc :: pc

text \<open>
  One statement of the loop body. Statements of different invocations can interleave, one
  D1 statement being atomic. A throw inside \<open>try\<close> moves to the \<open>catch\<close> block; an error of
  the UPDATE inside the \<open>catch\<close> block is logged and dropped.
\<close>

definition consumer_step :: "invocation \<Rightarrow> Env \<Rightarrow> invocation \<times> Env" where
  "consumer_step v env =
     (let jobId = m_jobId (inv_msg v); e = inv_env v in
      case inv_pc v of
        Step1 \<Rightarrow>
          (case ce_processing_error e of
             Some m \<Rightarrow> (v\<lparr>inv_pc := Catch m\<rparr>, env)
           | None \<Rightarrow>
               (v\<lparr>inv_pc := Step2\<rparr>,
                env\<lparr>generation_jobs :=
                      D1_update_processing (ce_now_processing e) jobId (generation_jobs env)\<rparr>))
      | Step2 \<Rightarrow>
          (case ce_generateImage_error e of
             Some m \<Rightarrow> (v\<lparr>inv_pc := Catch m\<rparr>, env)
           | None \<Rightarrow> (v\<lparr>inv_pc := Step3\<rparr>, env))
      | Step3 \<Rightarrow>
          (case ce_uploadImage e of
             Inl m \<Rightarrow> (v\<lparr>inv_pc := Catch m\<rparr>, env)
           | Inr downloadUrl \<Rightarrow> (v\<lparr>inv_pc := Step4 downloadUrl\<rparr>, env))
      | Step4 downloadUrl \<Rightarrow>
          (case ce_completed_error e of
             Some m \<Rightarrow> (v\<lparr>inv_pc := Catch m\<rparr>, env)
           | None \<Rightarrow>
               (v\<lparr>inv_pc := Step5 downloadUrl\<rparr>,
                env\<lparr>generation_jobs :=
                      D1_update_completed downloadUrl (ce_now_completed e) jobId
                        (generation_jobs env)\<rparr>))
      | Step5 downloadUrl \<Rightarrow>
          (case D1_insert_generation (ce_generation_error e)
                  \<lparr>g_id = ce_randomUUID e, g_job_id = jobId, g_image_url = downloadUrl,
                   g_prompt = m_prompt (inv_msg v), g_model = m_model (inv_msg v),
                   g_created_at = ce_now_completed e\<rparr>
                  (generation_jobs env) (generations env) of
             Inl x \<Rightarrow> (v\<lparr>inv_pc := Catch (error_message x)\<rparr>, env)
           | Inr tbl \<Rightarrow> (v\<lparr>inv_pc := Acked\<rparr>, env\<lparr>generations := tbl\<rparr>))
      | Catch errorMessage \<Rightarrow>
          (case ce_failed_error e of
             Some m \<Rightarrow> (v\<lparr>inv_pc := Retried\<rparr>, env)
           | None \<Rightarrow>
               (v\<lparr>inv_pc := Retried\<rparr>,
                env\<lparr>generation_jobs :=
                      D1_update_failed errorMessage (ce_now_failed e) jobId (generation_jobs env)\<rparr>))
      | Acked \<Rightarrow> (v, env)
      | Retried \<Rightarrow> (v, env))"

text \<open>
  The loop body run to its end for one message, and \<open>queue\<close> over a batch, one message
  after the other. A run takes at most six statements.
\<close>

definition process_message :: "consumer_env \<Rightarrow> ImageGenerationMessage \<Rightarrow> Env \<Rightarrow> invocation \<times> Env" where
  "process_message e msg env =
     ((\<lambda>(v, env'). consumer_step v env') ^^ 6) (\<lparr>inv_msg = msg, inv_env = e, inv_pc = Step1\<rparr>, env)"

fun queue :: "(ImageGenerationMessage \<times> consumer_env) list \<Rightarrow> Env \<Rightarrow> Env" where
  "queue [] env = env"
| "queue ((msg, e) # batch) env = queue batch (snd (process_message e msg env))"

section \<open>The system: tool calls, deliveries and consumer statements\<close>

text \<open>
  The store together with every consumer invocation started so far. The queue delivers
  at least once: a message that has been sent can be handed to a consumer any number of
  times, whether or not an earlier delivery is still running. A step of the system is a
  \<open>generate_image\<close> call (taken as one step: it only appends rows and messages of its
  own), the delivery of a sent message to a new consumer invocation, or the next statement
  of a running invocation. The read-only tools do not change the state.
\<close>

record system =
  sys_env :: Env
  running :: "invocation list"

datatype event =
    Tool_generate gen_env args
  | Deliver ImageGenerationMessage consumer_env
  | Advance nat

definition sys_step :: "event \<Rightarrow> system \<Rightarrow> system option" where
  "sys_step ev s =
     (case ev of
        Tool_generate e a \<Rightarrow> Some (s\<lparr>sys_env := snd (generate_image e a (sys_env s))\<rparr>)
      | Deliver msg e \<Rightarrow>
          if msg \<in> set (IMAGE_QUEUE (sys_env s))
          then Some (s\<lparr>running := running s @ [\<lparr>inv_msg = msg, inv_env = e, inv_pc = Step1\<rparr>]\<rparr>)
          else None
      | Advance k \<Rightarrow>
          if k < length (running s)
          then (case consumer_step (running s ! k) (sys_env s) of
                  (v, env) \<Rightarrow> Some \<lparr>sys_env = env, running = (running s)[k := v]\<rparr>)
          else None)"

fun run :: "event list \<Rightarrow> system \<Rightarrow> system option" where
  "run [] s = Some s"
| "run (ev # evs) s = (case sys_step ev s of None \<Rightarrow> None | Some s' \<Rightarrow> run evs s')"

definition init_system :: system where
  "init_system = \<lparr>sys_env = \<lparr>generation_jobs = [], generations = [], IMAGE_QUEUE = []\<rparr>, running = []\<rparr>"

text \<open>The status of the job with a given id, if there is such a row.\<close>

definition status_of :: "system \<Rightarrow> string \<Rightarrow> job_status option" where
  "status_of s jobId = map_option j_status (find (\<lambda>j. j_id j = jobId) (generation_jobs (sys_env s)))"

section \<open>Invariants of the system and auxiliary notions\<close>

text \<open>The fields of a job row agree with its status.\<close>

definition job_fields_ok :: "GenerationJob \<Rightarrow> bool" where
  "job_fields_ok r \<longleftrightarrow>
     (j_status r = Completed \<longrightarrow> j_image_url r \<noteq> None) \<and>
     (j_status r = Failed \<longrightarrow> j_error r \<noteq> None) \<and>
     (j_status r = Pending \<longrightarrow> j_image_url r = None \<and> j_error r = None)"

text \<open>An invocation that has run its Step 1 and is still inside \<open>try\<close>.\<close>

definition past_step1 :: "pc \<Rightarrow> bool" where
  "past_step1 c = (case c of Step2 \<Rightarrow> True | Step3 \<Rightarrow> True | Step4 u \<Rightarrow> True | Step5 u \<Rightarrow> True | _ \<Rightarrow> False)"

text \<open>An invocation that has run its Step 4 and stands before Step 5.\<close>

definition at_step5 :: "pc \<Rightarrow> bool" where
  "at_step5 c = (case c of Step5 u \<Rightarrow> True | _ \<Rightarrow> False)"

text \<open>
  An invocation refers to a row of the table; once it is past Step 1 that row is no longer
  pending, and once it is past Step 4 that row has an image URL.
\<close>

definition inv_ok :: "GenerationJob list \<Rightarrow> invocation \<Rightarrow> bool" where
  "inv_ok jobs v \<longleftrightarrow>
     m_jobId (inv_msg v) \<in> set (map j_id jobs) \<and>
     (\<forall>r \<in> set jobs. j_id r = m_jobId (inv_msg v) \<longrightarrow>
        (past_step1 (inv_pc v) \<longrightarrow> j_status r \<noteq> Pending) \<and>
        (at_step5 (inv_pc v) \<longrightarrow> j_image_url r \<noteq> None))"

text \<open>An invocation for job \<open>j\<close> that has acknowledged its message.\<close>

definition acked_for :: "string \<Rightarrow> invocation \<Rightarrow> bool" where
  "acked_for j v \<longleftrightarrow> m_jobId (inv_msg v) = j \<and> inv_pc v = Acked"

text \<open>
  The invariant of the system: consistent job rows; every sent message and every
  invocation refers to an existing job; every archive row refers to a job with an image
  URL; and a job has as many archive rows as acknowledged invocations.
\<close>

definition sys_inv :: "system \<Rightarrow> bool" where
  "sys_inv s \<longleftrightarrow>
     (\<forall>r \<in> set (generation_jobs (sys_env s)). job_fields_ok r) \<and>
     (\<forall>m \<in> set (IMAGE_QUEUE (sys_env s)). m_jobId m \<in> set (map j_id (generation_jobs (sys_env s)))) \<and>
     (\<forall>v \<in> set (running s). inv_ok (generation_jobs (sys_env s)) v) \<and>
     (\<forall>g \<in> set (generations (sys_env s)).
        \<exists>r \<in> set (generation_jobs (sys_env s)). j_id r = g_job_id g \<and> j_image_url r \<noteq> None) \<and>
     (\<forall>j. length (filter (\<lambda>g. g_job_id g = j) (generations (sys_env s))) =
          length (filter (acked_for j) (running s)))"

text \<open>
  What \<open>generate_image\<close> may do to the bindings: append pending rows with new ids, and
  append messages for rows that exist.
\<close>

definition extends :: "Env \<Rightarrow> Env \<Rightarrow> bool" where
  "extends env env' \<longleftrightarrow>
     (\<exists>rows msgs.
        generation_jobs env' = generation_jobs env @ rows \<and>
        IMAGE_QUEUE env' = IMAGE_QUEUE env @ msgs \<and>
        generations env' = generations env \<and>
        (\<forall>r \<in> set rows. j_status r = Pending \<and> j_image_url r = None \<and> j_error r = None
            \<and> j_id r \<notin> set (map j_id (generation_jobs env))) \<and>
        (\<forall>m \<in> set msgs. m_jobId m \<in> set (map j_id (generation_jobs env'))))"

text \<open>An UPDATE ... WHERE id = ? with a row transformer that keeps the id.\<close>

definition update_where :: "string \<Rightarrow> (GenerationJob \<Rightarrow> GenerationJob) \<Rightarrow> GenerationJob list \<Rightarrow> GenerationJob list" where
  "update_where jobId upd tbl = map (\<lambda>j. if j_id j = jobId then upd j else j) tbl"

text \<open>
  What every UPDATE of the consumer does to a row it touches: it keeps the id, leaves the
  row with consistent fields, never sets the status to pending and never clears the URL.
\<close>

definition safe_update :: "(GenerationJob \<Rightarrow> GenerationJob) \<Rightarrow> bool" where
  "safe_update upd \<longleftrightarrow>
     (\<forall>j. j_id (upd j) = j_id j \<and> j_status (upd j) \<noteq> Pending
          \<and> (job_fields_ok j \<longrightarrow> job_fields_ok (upd j))
          \<and> (j_image_url j \<noteq> None \<longrightarrow> j_image_url (upd j) \<noteq> None))"

text \<open>The kind of table update an UPDATE of the consumer is.\<close>

definition sets_status :: "job_status \<Rightarrow> (GenerationJob \<Rightarrow> GenerationJob) \<Rightarrow> bool" where
  "sets_status st upd \<longleftrightarrow> safe_update upd \<and> (\<forall>j. j_status (upd j) = st)"

text \<open>
  The ways in which the step \<open>ev\<close> taken in state \<open>s\<close> can change the status of job \<open>j\<close>
  from \<open>a\<close> to \<open>b\<close>: not at all; a \<open>generate_image\<close> call creates the row as pending;
  or a statement of an invocation for this very job writes it, Step 1 \<open>processing\<close>,
  Step 4 \<open>completed\<close> (the row is then no longer pending), the \<open>catch\<close> block \<open>failed\<close>.
\<close>

definition changed_by ::
  "system \<Rightarrow> event \<Rightarrow> string \<Rightarrow> job_status option \<Rightarrow> job_status option \<Rightarrow> bool" where
  "changed_by s ev j a b \<longleftrightarrow>
     b = a
     \<or> ((\<exists>e args. ev = Tool_generate e args) \<and> a = None \<and> b = Some Pending)
     \<or> (\<exists>k. ev = Advance k \<and> k < length (running s) \<and> m_jobId (inv_msg (running s ! k)) = j
            \<and> a \<noteq> None
            \<and> (inv_pc (running s ! k) = Step1 \<and> b = Some Processing
               \<or> (\<exists>u. inv_pc (running s ! k) = Step4 u) \<and> a \<noteq> Some Pending \<and> b = Some Completed
               \<or> (\<exists>m. inv_pc (running s ! k) = Catch m) \<and> b = Some Failed))"

text \<open>The bindings after the first \<open>k\<close> iterations of the loop, when none of them threw.\<close>

definition created :: "gen_env \<Rightarrow> GenerateImageParams \<Rightarrow> nat \<Rightarrow> Env \<Rightarrow> Env" where
  "created e p k env =
     env\<lparr>generation_jobs := generation_jobs env @ map (new_job p (ge_now e)) (map (ge_randomUUID e) [0..<k]),
         IMAGE_QUEUE := IMAGE_QUEUE env @ map (new_message p) (map (ge_randomUUID e) [0..<k])\<rparr>"

text \<open>An upper bound on the statements an invocation still has to run.\<close>

definition steps_left :: "pc \<Rightarrow> nat" where
  "steps_left c = (case c of Step1 \<Rightarrow> 6 | Step2 \<Rightarrow> 5 | Step3 \<Rightarrow> 4 | Step4 u \<Rightarrow> 3 | Step5 u \<Rightarrow> 2
                    | Catch m \<Rightarrow> 1 | Acked \<Rightarrow> 0 | Retried \<Rightarrow> 0)"

section \<open>Example inputs\<close>

definition uuid_of :: "nat \<Rightarrow> string" where
  "uuid_of i = ''job-'' @ replicate i (CHR ''x'')"

definition ex_env0 :: Env where
  "ex_env0 = \<lparr>generation_jobs = [], generations = [], IMAGE_QUEUE = []\<rparr>"

definition ex_gen_env :: gen_env where
  "ex_gen_env = \<lparr>ge_now = 1000, ge_randomUUID = uuid_of,
                 ge_insert_error = (\<lambda>i. None), ge_send_error = (\<lambda>i. None)\<rparr>"

definition ex_gen_env_send_fails :: gen_env where
  "ex_gen_env_send_fails =
     \<lparr>ge_now = 1000, ge_randomUUID = uuid_of, ge_insert_error = (\<lambda>i. None),
      ge_send_error = (\<lambda>i. if i = 1 then Some ''queue unavailable'' else None)\<rparr>"

definition ex_args_generate :: args where
  "ex_args_generate = [''prompt'' \<mapsto> JString ''a red apple'', ''count'' \<mapsto> JInt 3]"

definition ex_params_generate :: GenerateImageParams where
  "ex_params_generate = \<lparr>p_prompt = ''a red apple'', p_model = ''flux-schnell'', p_count = 3\<rparr>"

definition ex_args_empty_prompt :: args where
  "ex_args_empty_prompt = [''prompt'' \<mapsto> JString [], ''model'' \<mapsto> JString ''flux-schnell'']"

definition ex_job :: "string \<Rightarrow> job_status \<Rightarrow> int \<Rightarrow> GenerationJob" where
  "ex_job i s t = \<lparr>j_id = i, j_status = s, j_prompt = ''a red apple'', j_model = ''flux-schnell'',
                   j_image_url = None, j_error = None, j_created_at = t, j_updated_at = t\<rparr>"

definition ex_generation :: "string \<Rightarrow> string \<Rightarrow> int \<Rightarrow> Generation" where
  "ex_generation i j t = \<lparr>g_id = i, g_job_id = j, g_image_url = ''https://r2.dev/1.png'',
                          g_prompt = ''a red apple'', g_model = ''flux-schnell'', g_created_at = t\<rparr>"

definition ex_env_list :: Env where
  "ex_env_list =
     \<lparr>generation_jobs = [ex_job ''a'' Pending 10, ex_job ''b'' Pending 30, ex_job ''c'' Pending 20],
      generations = [ex_generation ''g1'' ''a'' 11, ex_generation ''g2'' ''b'' 31],
      IMAGE_QUEUE = []\<rparr>"

definition ex_args_list :: args where
  "ex_args_list = [''limit'' \<mapsto> JInt 2, ''offset'' \<mapsto> JInt 1]"

text \<open>A validated offset of \<open>2^63\<close>.\<close>

definition ex_args_list_far :: args where
  "ex_args_list_far = [''offset'' \<mapsto> JInt 9223372036854775808]"

definition ex_args_wait_single :: args where
  "ex_args_wait_single = [''job_id'' \<mapsto> JString ''a'']"

definition ex_args_wait_missing :: args where
  "ex_args_wait_missing = [''job_ids'' \<mapsto> JArray [JString ''a'', JString ''zzz'']]"

definition ex_args_wait_twice :: args where
  "ex_args_wait_twice = [''job_ids'' \<mapsto> JArray [JString ''a'', JString ''a'']]"

text \<open>A store in which job \<open>a\<close> stays pending; every SELECT takes \<open>ms\<close> milliseconds.\<close>

definition ex_wait_env :: "nat \<Rightarrow> wait_env" where
  "ex_wait_env ms =
     \<lparr>we_jobs = (\<lambda>i. [ex_job ''a'' Pending 10, ex_job ''b'' Pending 30]),
      we_query_error = (\<lambda>i. None), we_query_ms = (\<lambda>i. ms), we_timer_late = (\<lambda>i. 0)\<rparr>"

text \<open>
  One job created by \<open>generate_image\<close>, its message, and runs of the consumer: the
  environment of a delivery with a given id for the archive row and a given outcome of
  \<open>uploadImage\<close>.
\<close>

definition ex_args_one :: args where
  "ex_args_one = [''prompt'' \<mapsto> JString ''a red apple'']"

definition ex_msg :: ImageGenerationMessage where
  "ex_msg = \<lparr>m_jobId = uuid_of 0, m_prompt = ''a red apple'', m_model = ''flux-schnell''\<rparr>"

definition ex_ce :: "string \<Rightarrow> string + string \<Rightarrow> consumer_env" where
  "ex_ce uuid upload =
     \<lparr>ce_now_processing = 2000, ce_processing_error = None, ce_generateImage_error = None,
      ce_uploadImage = upload, ce_now_completed = 3000, ce_completed_error = None,
      ce_randomUUID = uuid, ce_generation_error = None, ce_now_failed = 4000,
      ce_failed_error = None\<rparr>"

text \<open>The job is created, delivered once and processed through to \<open>message.ack()\<close>.\<close>

definition ex_trace_completed :: "event list" where
  "ex_trace_completed =
     [Tool_generate ex_gen_env ex_args_one, Deliver ex_msg (ex_ce ''g1'' (Inr ''https://r2.dev/1.png'')),
      Advance 0, Advance 0, Advance 0, Advance 0, Advance 0]"

text \<open>Then the same message is delivered a second time.\<close>

definition ex_trace_redelivered :: "event list" where
  "ex_trace_redelivered =
     ex_trace_completed @ [Deliver ex_msg (ex_ce ''g2'' (Inr ''https://r2.dev/2.png''))]"

text \<open>Then the second delivery is processed through to \<open>message.ack()\<close> as well.\<close>

definition ex_trace_twice :: "event list" where
  "ex_trace_twice = ex_trace_redelivered @ [Advance 1, Advance 1, Advance 1, Advance 1, Advance 1]"

text \<open>
  One delivery whose Step 5 INSERT throws: it stands before Step 5 after four statements.
\<close>

definition ex_trace_insert_throws :: "event list" where
  "ex_trace_insert_throws =
     [Tool_generate ex_gen_env ex_args_one,
      Deliver ex_msg ((ex_ce ''g1'' (Inr ''https://r2.dev/1.png''))
                        \<lparr>ce_generation_error := Some ''D1_ERROR''\<rparr>),
      Advance 0, Advance 0, Advance 0, Advance 0]"

text \<open>
  The upload of the first delivery fails and the message is retried; the second delivery
  succeeds.
\<close>

definition ex_trace_failed_then_completed :: "event list" where
  "ex_trace_failed_then_completed =
     [Tool_generate ex_gen_env ex_args_one,
      Deliver ex_msg (ex_ce ''g1'' (Inl ''Image upload failed: Unknown error'')),
      Advance 0, Advance 0, Advance 0, Advance 0,
      Deliver ex_msg (ex_ce ''g2'' (Inr ''https://r2.dev/2.png'')),
      Advance 1, Advance 1, Advance 1, Advance 1, Advance 1]"

section \<open>Job creation: validation, the success path, partial failure\<close>

declare create_jobs.simps [simp del]

lemma created_0: "created e p 0 env = env"
  by (simp add: created_def)

lemma ids_created:
  "set (map j_id (generation_jobs (created e p k env))) =
     set (map j_id (generation_jobs env)) \<union> ge_randomUUID e ` {0..<k}"
  by (auto simp: created_def new_job_def)

lemma created_rows:
  "created e p k env =
      env\<lparr>generation_jobs := generation_jobs env @
             map (\<lambda>i. \<lparr>j_id = ge_randomUUID e i, j_status = Pending, j_prompt = p_prompt p,
                       j_model = p_model p, j_image_url = None, j_error = None,
                       j_created_at = ge_now e, j_updated_at = ge_now e\<rparr>) [0..<k],
          IMAGE_QUEUE := IMAGE_QUEUE env @
             map (\<lambda>i. \<lparr>m_jobId = ge_randomUUID e i, m_prompt = p_prompt p,
                       m_model = p_model p\<rparr>) [0..<k]\<rparr>"
  by (simp add: created_def new_job_def new_message_def comp_def)

lemma create_jobs_step_ok:
  assumes "int k < p_count p"
    and "ge_insert_error e k = None" and "ge_send_error e k = None"
    and "ge_randomUUID e k \<notin> set (map j_id (generation_jobs env))"
    and "ge_randomUUID e k \<notin> ge_randomUUID e ` {0..<k}"
  shows "create_jobs e p k (map (ge_randomUUID e) [0..<k]) (created e p k env) =
         create_jobs e p (Suc k) (map (ge_randomUUID e) [0..<Suc k]) (created e p (Suc k) env)"
proof -
  have fresh: "ge_randomUUID e k \<notin> set (map j_id (generation_jobs (created e p k env)))"
    using assms(4,5) unfolding ids_created by blast
  have next_env: "created e p (Suc k) env =
      (created e p k env)\<lparr>generation_jobs := generation_jobs (created e p k env) @
            [new_job p (ge_now e) (ge_randomUUID e k)],
         IMAGE_QUEUE := IMAGE_QUEUE (created e p k env) @ [new_message p (ge_randomUUID e k)]\<rparr>"
    by (simp add: created_def)
  have id_new: "j_id (new_job p (ge_now e) (ge_randomUUID e k)) = ge_randomUUID e k"
    by (simp add: new_job_def)
  show ?thesis
    apply (subst create_jobs.simps)
    using assms(1,2,3) fresh
    apply (simp only: next_env D1_insert_job_def Queue_send_def Let_def id_new)
    apply simp
    done
qed

lemma create_jobs_prefix:
  assumes "int k \<le> p_count p"
    and "\<forall>i<k. ge_insert_error e i = None \<and> ge_send_error e i = None"
    and "\<forall>i<k. ge_randomUUID e i \<notin> set (map j_id (generation_jobs env))"
    and "inj_on (ge_randomUUID e) {0..<k}"
  shows "create_jobs e p 0 [] env =
         create_jobs e p k (map (ge_randomUUID e) [0..<k]) (created e p k env)"
  using assms
proof (induction k)
  case 0
  then show ?case by (simp add: created_0)
next
  case (Suc k)
  have inj: "inj_on (ge_randomUUID e) {0..<k}"
    using Suc.prems(4) by (rule inj_on_subset) auto
  have new: "ge_randomUUID e k \<notin> ge_randomUUID e ` {0..<k}"
  proof
    assume "ge_randomUUID e k \<in> ge_randomUUID e ` {0..<k}"
    then obtain i where "i < k" "ge_randomUUID e i = ge_randomUUID e k" by auto
    with inj_onD [OF Suc.prems(4), of i k] show False by simp
  qed
  have "create_jobs e p 0 [] env =
        create_jobs e p k (map (ge_randomUUID e) [0..<k]) (created e p k env)"
    using Suc.prems inj by (intro Suc.IH) auto
  also have "\<dots> = create_jobs e p (Suc k) (map (ge_randomUUID e) [0..<Suc k]) (created e p (Suc k) env)"
    using Suc.prems new by (intro create_jobs_step_ok) auto
  finally show ?case .
qed

lemma create_jobs_exit:
  "p_count p \<le> int k \<Longrightarrow> create_jobs e p k ids env = (Inr ids, env)"
  by (subst create_jobs.simps) simp

lemma parse_count_range: "parse_count v = Some c \<Longrightarrow> 1 \<le> c \<and> c \<le> 20"
  by (auto simp: parse_count_def split: option.splits jsval.splits if_splits)

lemma GenerateImageSchema_parse_count:
  "GenerateImageSchema_parse a = Inr p \<Longrightarrow> 1 \<le> p_count p \<and> p_count p \<le> 20"
  by (auto simp: GenerateImageSchema_parse_def split: option.splits dest: parse_count_range)

lemma inj_uuid_of: "inj_on uuid_of A"
  by (auto simp: inj_on_def uuid_of_def dest: arg_cong [where f = length])

lemma ex_parse_generate: "GenerateImageSchema_parse ex_args_generate = Inr ex_params_generate"
  by (simp add: GenerateImageSchema_parse_def ex_args_generate_def ex_params_generate_def
      parse_prompt_def parse_model_def parse_count_def)

text \<open>
  C7. A valid \<open>generate_image\<close> call with count \<open>N\<close> (Zod guarantees \<open>1 \<le> N \<le> 20\<close>), in
  which no INSERT and no \<open>send\<close> throws and \<open>crypto.randomUUID()\<close> returns identifiers that
  are pairwise different and not yet in the table, appends exactly \<open>N\<close> rows to
  \<open>generation_jobs\<close>, the i-th with the i-th identifier, status \<open>pending\<close>, no image URL, no
  error and \<open>created_at = updated_at = now\<close>; it sends exactly one message
  \<open>{jobId, prompt, model}\<close> per row, in the same order; and it answers with the single
  \<open>job_id\<close> when \<open>N = 1\<close> and with \<open>job_ids\<close> in creation order when \<open>N > 1\<close>.
\<close>

theorem generate_image_creates_count_jobs:
  assumes valid: "GenerateImageSchema_parse a = Inr p"
    and N: "N = nat (p_count p)"
    and ok: "\<forall>i<N. ge_insert_error e i = None \<and> ge_send_error e i = None"
    and fresh: "\<forall>i<N. ge_randomUUID e i \<notin> set (map j_id (generation_jobs env))"
    and uniq: "inj_on (ge_randomUUID e) {0..<N}"
  shows "1 \<le> N \<and> N \<le> 20 \<and>
         generate_image e a env =
           (if N = 1 then GenerateStarted (Some (ge_randomUUID e 0)) (p_prompt p) (p_model p)
            else GenerateStartedMany (map (ge_randomUUID e) [0..<N]) (int N) (p_prompt p) (p_model p),
            env\<lparr>generation_jobs := generation_jobs env @
                    map (\<lambda>i. \<lparr>j_id = ge_randomUUID e i, j_status = Pending, j_prompt = p_prompt p,
                              j_model = p_model p, j_image_url = None, j_error = None,
                              j_created_at = ge_now e, j_updated_at = ge_now e\<rparr>) [0..<N],
                IMAGE_QUEUE := IMAGE_QUEUE env @
                    map (\<lambda>i. \<lparr>m_jobId = ge_randomUUID e i, m_prompt = p_prompt p,
                              m_model = p_model p\<rparr>) [0..<N]\<rparr>)"
proof -
  have range: "1 \<le> p_count p" "p_count p \<le> 20"
    using GenerateImageSchema_parse_count [OF valid] by auto
  then have N': "int N = p_count p" "1 \<le> N" "N \<le> 20" using N by auto
  have "create_jobs e p 0 [] env =
        create_jobs e p N (map (ge_randomUUID e) [0..<N]) (created e p N env)"
    using N' ok fresh uniq by (intro create_jobs_prefix) auto
  also have "\<dots> = (Inr (map (ge_randomUUID e) [0..<N]), created e p N env)"
    using N' by (intro create_jobs_exit) simp
  finally have run: "create_jobs e p 0 [] env =
     (Inr (map (ge_randomUUID e) [0..<N]), created e p N env)" .
  have idx: "js_index (map (ge_randomUUID e) [0..<N]) 0 = Some (ge_randomUUID e 0)"
    using N'(2) by (simp add: js_index_def nth_map_upt)
  have one: "p_count p = 1 \<longleftrightarrow> N = 1"
    using N'(1) by auto
  show ?thesis
    using N'(2,3)
    by (auto simp: generate_image_def valid run created_rows idx one N'(1) [symmetric] js_index_def)
qed

theorem generate_image_creates_count_jobs_witness:
  "GenerateImageSchema_parse ex_args_generate = Inr ex_params_generate \<and>
   fst (generate_image ex_gen_env ex_args_generate ex_env0) =
     GenerateStartedMany [uuid_of 0, uuid_of 1, uuid_of 2] 3 ''a red apple'' ''flux-schnell'' \<and>
   map j_id (generation_jobs (snd (generate_image ex_gen_env ex_args_generate ex_env0))) =
     [uuid_of 0, uuid_of 1, uuid_of 2] \<and>
   map j_status (generation_jobs (snd (generate_image ex_gen_env ex_args_generate ex_env0))) =
     [Pending, Pending, Pending] \<and>
   map m_jobId (IMAGE_QUEUE (snd (generate_image ex_gen_env ex_args_generate ex_env0))) =
     [uuid_of 0, uuid_of 1, uuid_of 2]"
proof -
  have N: "(3::nat) = nat (p_count ex_params_generate)"
    by (simp add: ex_params_generate_def)
  have ok: "\<forall>i<3::nat. ge_insert_error ex_gen_env i = None \<and> ge_send_error ex_gen_env i = None"
    by (simp add: ex_gen_env_def)
  have fresh: "\<forall>i<3::nat. ge_randomUUID ex_gen_env i \<notin> set (map j_id (generation_jobs ex_env0))"
    by (simp add: ex_env0_def)
  have uniq: "inj_on (ge_randomUUID ex_gen_env) {0..<3::nat}"
    by (simp add: ex_gen_env_def inj_uuid_of)
  have upt3: "[0..<3::nat] = [0, 1, 2]"
    by (simp add: upt_rec)
  show ?thesis
    using generate_image_creates_count_jobs [OF ex_parse_generate N ok fresh uniq]
    by (simp add: ex_parse_generate upt3 ex_gen_env_def ex_params_generate_def ex_env0_def)
qed

text \<open>
  C8. A \<open>generate_image\<close> call whose prompt is empty or longer than 1000 characters,
  whose model is not one of the three literals, or whose count is an integer outside
  1..20, returns the failure envelope of the Zod error and leaves the job table and the
  queue exactly as they were.
\<close>

theorem generate_image_malformed_no_mutation:
  assumes "a ''prompt'' = Some (JString [])
         \<or> (\<exists>s. a ''prompt'' = Some (JString s) \<and> 1000 < length s)
         \<or> (\<exists>v. a ''model'' = Some v \<and> v \<notin> JString ` set model_enum)
         \<or> (\<exists>n. a ''count'' = Some (JInt n) \<and> (n < 1 \<or> 20 < n))"
  shows "generate_image e a env = (Failure ZodError, env)"
proof -
  have "parse_prompt (a ''prompt'') = None \<or> parse_model (a ''model'') = None
          \<or> parse_count (a ''count'') = None"
    using assms
    by (auto simp: parse_prompt_def parse_model_def parse_count_def split: jsval.splits)
  then have "GenerateImageSchema_parse a = Inl ZodError"
    by (auto simp: GenerateImageSchema_parse_def split: option.splits)
  then show ?thesis by (simp add: generate_image_def)
qed

theorem generate_image_malformed_no_mutation_witness:
  "ex_args_empty_prompt ''prompt'' = Some (JString []) \<and>
   generate_image ex_gen_env ex_args_empty_prompt ex_env0 = (Failure ZodError, ex_env0)"
proof -
  have h: "ex_args_empty_prompt ''prompt'' = Some (JString [])"
    by (simp add: ex_args_empty_prompt_def)
  then have "ex_args_empty_prompt ''prompt'' = Some (JString [])
         \<or> (\<exists>s. ex_args_empty_prompt ''prompt'' = Some (JString s) \<and> 1000 < length s)
         \<or> (\<exists>v. ex_args_empty_prompt ''model'' = Some v \<and> v \<notin> JString ` set model_enum)
         \<or> (\<exists>n. ex_args_empty_prompt ''count'' = Some (JInt n) \<and> (n < 1 \<or> 20 < n))"
    by (rule disjI1)
  from generate_image_malformed_no_mutation [OF this] h show ?thesis by simp
qed

text \<open>
  C10. Batch creation is not atomic. In a valid call with count \<open>N > 1\<close> whose first
  \<open>i - 1\<close> replicas go through and whose i-th replica (\<open>1 < i \<le> N\<close>) fails, because
  the INSERT throws, the identifier is already taken, or the \<open>send\<close> throws, the response
  is the failure envelope, which carries the thrown error and no identifier; the first
  \<open>i - 1\<close> rows are in the table with status \<open>pending\<close> and their \<open>i - 1\<close> messages are in
  the queue. When it was the \<open>send\<close> that failed, the i-th row is in the table as well,
  with no message for it.
\<close>

theorem generate_image_batch_not_atomic:
  assumes valid: "GenerateImageSchema_parse a = Inr p"
    and i: "1 < i" "int i \<le> p_count p"
    and ok: "\<forall>k<i - 1. ge_insert_error e k = None \<and> ge_send_error e k = None"
    and fresh: "\<forall>k<i - 1. ge_randomUUID e k \<notin> set (map j_id (generation_jobs env))"
    and uniq: "inj_on (ge_randomUUID e) {0..<i - 1}"
    and fails: "ge_insert_error e (i - 1) \<noteq> None
              \<or> ge_randomUUID e (i - 1) \<in> set (map j_id (generation_jobs env)) \<union> ge_randomUUID e ` {0..<i - 1}
              \<or> ge_send_error e (i - 1) \<noteq> None"
  shows "\<exists>x rest. generate_image e a env =
           (Failure x,
            env\<lparr>generation_jobs := generation_jobs env @
                    map (\<lambda>k. \<lparr>j_id = ge_randomUUID e k, j_status = Pending, j_prompt = p_prompt p,
                              j_model = p_model p, j_image_url = None, j_error = None,
                              j_created_at = ge_now e, j_updated_at = ge_now e\<rparr>) [0..<i - 1] @ rest,
                IMAGE_QUEUE := IMAGE_QUEUE env @
                    map (\<lambda>k. \<lparr>m_jobId = ge_randomUUID e k, m_prompt = p_prompt p,
                              m_model = p_model p\<rparr>) [0..<i - 1]\<rparr>)
         \<and> ((\<exists>m. x = D1Error m) \<and> rest = [] \<or>
            (\<exists>m. x = QueueError m) \<and> rest = [new_job p (ge_now e) (ge_randomUUID e (i - 1))])"
proof -
  define k where "k = i - 1"
  have k: "int k < p_count p" "int k \<le> p_count p" using i by (auto simp: k_def)
  have pre: "create_jobs e p 0 [] env =
        create_jobs e p k (map (ge_randomUUID e) [0..<k]) (created e p k env)"
    using k ok fresh uniq unfolding k_def [symmetric] by (intro create_jobs_prefix) auto
  let ?c = "created e p k env"
  let ?ids = "map (ge_randomUUID e) [0..<k]"
  let ?row = "new_job p (ge_now e) (ge_randomUUID e k)"
  have unchanged: "?c\<lparr>generation_jobs := generation_jobs ?c @ []\<rparr> = ?c" by simp
  consider
      (ins) m where "ge_insert_error e k = Some m"
    | (dup) "ge_insert_error e k = None" "j_id ?row \<in> set (map j_id (generation_jobs ?c))"
    | (snd) m where "ge_insert_error e k = None" "j_id ?row \<notin> set (map j_id (generation_jobs ?c))"
        "ge_send_error e k = Some m"
    using fails unfolding k_def [symmetric] ids_created
    by (cases "ge_insert_error e k") (auto simp: new_job_def)
  then obtain x rest where
    run: "create_jobs e p k ?ids ?c = (Inl x, ?c\<lparr>generation_jobs := generation_jobs ?c @ rest\<rparr>)"
    and x: "(\<exists>m. x = D1Error m) \<and> rest = [] \<or> (\<exists>m. x = QueueError m) \<and> rest = [?row]"
  proof cases
    case ins
    have "create_jobs e p k ?ids ?c = (Inl (D1Error m), ?c\<lparr>generation_jobs := generation_jobs ?c @ []\<rparr>)"
      unfolding unchanged
      by (subst create_jobs.simps) (simp add: k(1) ins D1_insert_job_def Let_def)
    then show ?thesis by (intro that) auto
  next
    case dup
    have "create_jobs e p k ?ids ?c =
        (Inl (D1Error ''UNIQUE constraint failed: generation_jobs.id''),
         ?c\<lparr>generation_jobs := generation_jobs ?c @ []\<rparr>)"
      unfolding unchanged
      by (subst create_jobs.simps) (simp only: k(1) dup D1_insert_job_def Let_def, simp)
    then show ?thesis by (intro that) auto
  next
    case snd
    have "create_jobs e p k ?ids ?c =
        (Inl (QueueError m), ?c\<lparr>generation_jobs := generation_jobs ?c @ [?row]\<rparr>)"
      by (subst create_jobs.simps) (simp only: k(1) snd D1_insert_job_def Queue_send_def Let_def, simp)
    then show ?thesis by (intro that) auto
  qed
  have "generate_image e a env =
          (Failure x, ?c\<lparr>generation_jobs := generation_jobs ?c @ rest\<rparr>)"
    by (simp add: generate_image_def valid pre run)
  also have "?c\<lparr>generation_jobs := generation_jobs ?c @ rest\<rparr> =
      env\<lparr>generation_jobs := generation_jobs env @
                    map (\<lambda>i. \<lparr>j_id = ge_randomUUID e i, j_status = Pending, j_prompt = p_prompt p,
                              j_model = p_model p, j_image_url = None, j_error = None,
                              j_created_at = ge_now e, j_updated_at = ge_now e\<rparr>) [0..<k] @ rest,
                IMAGE_QUEUE := IMAGE_QUEUE env @
                    map (\<lambda>i. \<lparr>m_jobId = ge_randomUUID e i, m_prompt = p_prompt p,
                              m_model = p_model p\<rparr>) [0..<k]\<rparr>"
    by (simp add: created_rows)
  finally show ?thesis
    using x unfolding k_def [symmetric] by blast
qed

theorem generate_image_batch_not_atomic_witness:
  "GenerateImageSchema_parse ex_args_generate = Inr ex_params_generate \<and>
   fst (generate_image ex_gen_env_send_fails ex_args_generate ex_env0) =
     Failure (QueueError ''queue unavailable'') \<and>
   map j_id (generation_jobs (snd (generate_image ex_gen_env_send_fails ex_args_generate ex_env0))) =
     [uuid_of 0, uuid_of 1] \<and>
   map j_status (generation_jobs (snd (generate_image ex_gen_env_send_fails ex_args_generate ex_env0))) =
     [Pending, Pending] \<and>
   map m_jobId (IMAGE_QUEUE (snd (generate_image ex_gen_env_send_fails ex_args_generate ex_env0))) =
     [uuid_of 0]"
proof -
  have i: "1 < (2::nat)" "int 2 \<le> p_count ex_params_generate"
    by (simp_all add: ex_params_generate_def)
  have ok: "\<forall>k<2 - 1. ge_insert_error ex_gen_env_send_fails k = None
               \<and> ge_send_error ex_gen_env_send_fails k = None"
    by (simp add: ex_gen_env_send_fails_def)
  have fresh: "\<forall>k<2 - 1. ge_randomUUID ex_gen_env_send_fails k \<notin> set (map j_id (generation_jobs ex_env0))"
    by (simp add: ex_env0_def)
  have uniq: "inj_on (ge_randomUUID ex_gen_env_send_fails) {0..<2 - 1}"
    by (simp add: ex_gen_env_send_fails_def inj_uuid_of)
  have fails: "ge_insert_error ex_gen_env_send_fails (2 - 1) \<noteq> None
              \<or> ge_randomUUID ex_gen_env_send_fails (2 - 1) \<in> set (map j_id (generation_jobs ex_env0))
                    \<union> ge_randomUUID ex_gen_env_send_fails ` {0..<2 - 1}
              \<or> ge_send_error ex_gen_env_send_fails (2 - 1) \<noteq> None"
    by (simp add: ex_gen_env_send_fails_def)
  have row: "new_job ex_params_generate 1000 (uuid_of 1) \<noteq> x" if "j_id x \<noteq> uuid_of 1" for x
    using that by (auto simp: new_job_def)
  obtain x rest where
    r: "generate_image ex_gen_env_send_fails ex_args_generate ex_env0 =
           (Failure x,
            ex_env0\<lparr>generation_jobs := generation_jobs ex_env0 @
                    map (\<lambda>k. \<lparr>j_id = ge_randomUUID ex_gen_env_send_fails k, j_status = Pending,
                              j_prompt = p_prompt ex_params_generate,
                              j_model = p_model ex_params_generate, j_image_url = None, j_error = None,
                              j_created_at = ge_now ex_gen_env_send_fails,
                              j_updated_at = ge_now ex_gen_env_send_fails\<rparr>) [0..<2 - 1] @ rest,
                IMAGE_QUEUE := IMAGE_QUEUE ex_env0 @
                    map (\<lambda>k. \<lparr>m_jobId = ge_randomUUID ex_gen_env_send_fails k,
                              m_prompt = p_prompt ex_params_generate,
                              m_model = p_model ex_params_generate\<rparr>) [0..<2 - 1]\<rparr>)"
    and x: "(\<exists>m. x = D1Error m) \<and> rest = [] \<or>
            (\<exists>m. x = QueueError m) \<and>
              rest = [new_job ex_params_generate (ge_now ex_gen_env_send_fails)
                        (ge_randomUUID ex_gen_env_send_fails (2 - 1))]"
    using generate_image_batch_not_atomic [OF ex_parse_generate i ok fresh uniq fails] by blast
  have direct: "fst (generate_image ex_gen_env_send_fails ex_args_generate ex_env0) =
     Failure (QueueError ''queue unavailable'')"
    by (simp add: generate_image_def ex_parse_generate create_jobs.simps ex_params_generate_def
        ex_gen_env_send_fails_def ex_env0_def D1_insert_job_def Queue_send_def new_job_def uuid_of_def
        Let_def)
  with r x have rest: "rest = [new_job ex_params_generate 1000 (uuid_of 1)]"
    by (auto simp: ex_gen_env_send_fails_def)
  show ?thesis
    using r direct unfolding rest
    by (simp add: ex_parse_generate ex_gen_env_send_fails_def ex_params_generate_def ex_env0_def
        new_job_def)
qed

section \<open>Listing: pagination\<close>

lemma length_limit_offset:
  "0 \<le> l \<Longrightarrow> 0 \<le> off \<Longrightarrow>
     int (length (limit_offset l off xs)) = min l (max 0 (int (length xs) - off))"
  by (auto simp: limit_offset_def min_def max_def)

lemma length_order_by_desc: "length (order_by_desc k xs) = length xs"
  by (simp add: order_by_desc_def)

lemma sorted_limit_offset:
  "sorted_wrt (\<lambda>x y. key y \<le> (key x :: int)) (limit_offset l off (order_by_desc key xs))"
proof -
  have "sorted (map (\<lambda>r. - key r) (order_by_desc key xs))"
    by (simp add: order_by_desc_def)
  then have "sorted_wrt (\<lambda>x y. key y \<le> key x) (order_by_desc key xs)"
    by (simp add: sorted_map)
  then show ?thesis
    unfolding limit_offset_def by (intro sorted_wrt_take sorted_wrt_drop)
qed

lemma parse_limit_range: "parse_limit v = Some l \<Longrightarrow> 1 \<le> l \<and> l \<le> 50"
  by (auto simp: parse_limit_def split: option.splits jsval.splits if_splits)

lemma parse_offset_range: "parse_offset v = Some off \<Longrightarrow> 0 \<le> off"
  by (auto simp: parse_offset_def split: option.splits jsval.splits if_splits)

lemma ListJobsSchema_parse_range:
  "ListJobsSchema_parse a = Inr (f, l, off) \<Longrightarrow> 1 \<le> l \<and> l \<le> 50 \<and> 0 \<le> off"
  by (auto simp: ListJobsSchema_parse_def split: option.splits
      dest: parse_limit_range parse_offset_range)

lemma ListGenerationsSchema_parse_range:
  "ListGenerationsSchema_parse a = Inr (l, off) \<Longrightarrow> 1 \<le> l \<and> l \<le> 50 \<and> 0 \<le> off"
  by (auto simp: ListGenerationsSchema_parse_def split: option.splits
      dest: parse_limit_range parse_offset_range)

lemma D1_select_page_ok:
  "l \<le> 50 \<Longrightarrow> off < 2 ^ 63 \<Longrightarrow> D1_select_page l off rows = Inr (limit_offset l off rows)"
  by (simp add: D1_select_page_def)

lemma D1_select_page_far:
  "2 ^ 63 \<le> off \<Longrightarrow> D1_select_page l off rows = Inl (D1Error ''datatype mismatch'')"
  by (simp add: D1_select_page_def)

text \<open>
  C6, as the code has it. Over one store state, with no error raised by the environment,
  a \<open>list_jobs\<close> call and a \<open>list_generations\<close> call with validated \<open>limit\<close> and \<open>offset\<close>,
  the offset below \<open>2^63\<close>, answer with
  \<open>returned_count = min(limit, max(0, total_count - offset))\<close> and
  \<open>has_more = (offset + returned_count < total_count)\<close>, where \<open>total_count\<close> counts the rows
  that pass the status filter (all rows for generations), and the returned rows are in
  descending order of \<open>created_at\<close>. With a validated offset of \<open>2^63\<close> or more the SELECT
  throws and the call answers with the failure envelope.
\<close>

theorem list_pagination_consistent:
  assumes jobs: "ListJobsSchema_parse a = Inr (f, l, off)"
    and gens: "ListGenerationsSchema_parse a' = Inr (l', off')"
  shows "(if off < 2 ^ 63 then
            (\<exists>rows. list_jobs None a env =
               ListJobs f (int (length (where_status f (generation_jobs env))))
                 (min l (max 0 (int (length (where_status f (generation_jobs env))) - off)))
                 (off + min l (max 0 (int (length (where_status f (generation_jobs env))) - off))
                    < int (length (where_status f (generation_jobs env))))
                 l off rows
             \<and> int (length rows) = min l (max 0 (int (length (where_status f (generation_jobs env))) - off))
             \<and> sorted_wrt (\<lambda>x y. j_created_at y \<le> j_created_at x) rows)
          else (\<exists>m. list_jobs None a env = Failure (D1Error m)))
       \<and> (if off' < 2 ^ 63 then
            (\<exists>rows. list_generations None a' env =
               ListGenerations (int (length (generations env)))
                 (min l' (max 0 (int (length (generations env)) - off')))
                 (off' + min l' (max 0 (int (length (generations env)) - off'))
                    < int (length (generations env)))
                 l' off' rows
             \<and> int (length rows) = min l' (max 0 (int (length (generations env)) - off'))
             \<and> sorted_wrt (\<lambda>x y. g_created_at y \<le> g_created_at x) rows)
          else (\<exists>m. list_generations None a' env = Failure (D1Error m)))"
proof -
  have r: "0 \<le> l" "0 \<le> off" "l \<le> 50" using ListJobsSchema_parse_range [OF jobs] by auto
  have r': "0 \<le> l'" "0 \<le> off'" "l' \<le> 50" using ListGenerationsSchema_parse_range [OF gens] by auto
  let ?js = "where_status f (generation_jobs env)"
  let ?rows = "limit_offset l off (order_by_desc j_created_at ?js)"
  let ?rows' = "limit_offset l' off' (order_by_desc g_created_at (generations env))"
  have n: "int (length ?rows) = min l (max 0 (int (length ?js) - off))"
    unfolding length_limit_offset [OF r(1,2)] length_order_by_desc ..
  have n': "int (length ?rows') = min l' (max 0 (int (length (generations env)) - off'))"
    unfolding length_limit_offset [OF r'(1,2)] length_order_by_desc ..
  have A: "\<exists>rows. list_jobs None a env =
            ListJobs f (int (length ?js)) (min l (max 0 (int (length ?js) - off)))
              (off + min l (max 0 (int (length ?js) - off)) < int (length ?js)) l off rows
          \<and> int (length rows) = min l (max 0 (int (length ?js) - off))
          \<and> sorted_wrt (\<lambda>x y. j_created_at y \<le> j_created_at x) rows"
    if small: "off < 2 ^ 63"
  proof -
    have "list_jobs None a env =
      ListJobs f (int (length ?js)) (int (length ?rows))
        (off + int (length ?rows) < int (length ?js)) l off ?rows"
      by (simp add: list_jobs_def jobs Let_def D1_select_page_ok [OF r(3) small])
    then have "list_jobs None a env =
            ListJobs f (int (length ?js)) (min l (max 0 (int (length ?js) - off)))
              (off + min l (max 0 (int (length ?js) - off)) < int (length ?js)) l off ?rows"
      unfolding n .
    then show ?thesis
      using n sorted_limit_offset [of j_created_at l off ?js] by blast
  qed
  have A': "\<exists>m. list_jobs None a env = Failure (D1Error m)" if "\<not> off < 2 ^ 63"
    using that by (simp add: list_jobs_def jobs Let_def D1_select_page_far)
  have B: "\<exists>rows. list_generations None a' env =
      ListGenerations (int (length (generations env)))
        (min l' (max 0 (int (length (generations env)) - off')))
        (off' + min l' (max 0 (int (length (generations env)) - off'))
           < int (length (generations env))) l' off' rows
          \<and> int (length rows) = min l' (max 0 (int (length (generations env)) - off'))
          \<and> sorted_wrt (\<lambda>x y. g_created_at y \<le> g_created_at x) rows"
    if small: "off' < 2 ^ 63"
  proof -
    have "list_generations None a' env =
      ListGenerations (int (length (generations env))) (int (length ?rows'))
        (off' + int (length ?rows') < int (length (generations env))) l' off' ?rows'"
      by (simp add: list_generations_def gens Let_def D1_select_page_ok [OF r'(3) small])
    then have "list_generations None a' env =
      ListGenerations (int (length (generations env)))
        (min l' (max 0 (int (length (generations env)) - off')))
        (off' + min l' (max 0 (int (length (generations env)) - off'))
           < int (length (generations env))) l' off' ?rows'"
      unfolding n' .
    then show ?thesis
      using n' sorted_limit_offset [of g_created_at l' off' "generations env"] by blast
  qed
  have B': "\<exists>m. list_generations None a' env = Failure (D1Error m)" if "\<not> off' < 2 ^ 63"
    using that by (simp add: list_generations_def gens Let_def D1_select_page_far)
  show ?thesis
    using A A' B B' by (simp only: split: if_split) blast
qed

lemma ex_parse_list_jobs: "ListJobsSchema_parse ex_args_list = Inr (None, 2, 1)"
  by (simp add: ListJobsSchema_parse_def ex_args_list_def parse_status_def parse_limit_def
      parse_offset_def)

lemma ex_parse_list_generations: "ListGenerationsSchema_parse ex_args_list = Inr (2, 1)"
  by (simp add: ListGenerationsSchema_parse_def ex_args_list_def parse_limit_def parse_offset_def)

theorem list_pagination_consistent_witness:
  "ListJobsSchema_parse ex_args_list = Inr (None, 2, 1) \<and>
   ListGenerationsSchema_parse ex_args_list = Inr (2, 1) \<and>
   list_jobs None ex_args_list ex_env_list =
     ListJobs None 3 2 False 2 1 [ex_job ''c'' Pending 20, ex_job ''a'' Pending 10] \<and>
   list_generations None ex_args_list ex_env_list =
     ListGenerations 2 1 False 2 1 [ex_generation ''g1'' ''a'' 11]"
  using list_pagination_consistent [OF ex_parse_list_jobs ex_parse_list_generations, of ex_env_list]
  by (simp add: ex_parse_list_jobs ex_parse_list_generations list_jobs_def list_generations_def
      D1_select_page_def ex_env_list_def where_status_def limit_offset_def order_by_desc_def
      ex_job_def ex_generation_def Let_def numeral_2_eq_2)

text \<open>
  C6 as stated fails. An offset of \<open>2^63\<close> passes validation (\<open>min(0)\<close>, no maximum), but
  the SELECT that binds it throws: both list tools answer with the failure envelope, not
  with a page and its counts.
\<close>

theorem list_far_offset_counterexample:
  "ListJobsSchema_parse ex_args_list_far = Inr (None, 10, 9223372036854775808) \<and>
   ListGenerationsSchema_parse ex_args_list_far = Inr (10, 9223372036854775808) \<and>
   list_jobs None ex_args_list_far ex_env_list = Failure (D1Error ''datatype mismatch'') \<and>
   list_generations None ex_args_list_far ex_env_list = Failure (D1Error ''datatype mismatch'')"
  by (simp add: ListJobsSchema_parse_def ListGenerationsSchema_parse_def ex_args_list_far_def
      parse_status_def parse_limit_def parse_offset_def list_jobs_def list_generations_def
      D1_select_page_def Let_def)

section \<open>Waiting: missing jobs, repeated identifiers, the timeout\<close>

declare wait_loop.simps [simp del]

lemma ex_parse_wait_single: "WaitForCompletionSchema_parse ex_args_wait_single = Inr (Single ''a'')"
  by (simp add: WaitForCompletionSchema_parse_def ex_args_wait_single_def)

lemma ex_select_single: "select_in [''a''] (we_jobs (ex_wait_env ms) i) = [ex_job ''a'' Pending 10]"
  by (simp add: select_in_def ex_wait_env_def ex_job_def)

lemma ex_wait_env_simps:
  "we_query_error (ex_wait_env ms) i = None"
  "we_query_ms (ex_wait_env ms) i = ms"
  "we_timer_late (ex_wait_env ms) i = 0"
  "check_jobs True [''a''] (select_in [''a''] (we_jobs (ex_wait_env ms) i)) = None"
  by (simp_all add: ex_wait_env_def select_in_def check_jobs_def ex_job_def)


lemma MAX_WAIT_pos: "0 < MAX_WAIT ids"
  by (simp add: MAX_WAIT_def BASE_TIMEOUT_def)

lemma length_select_in:
  assumes "distinct (map j_id tbl)"
  shows "length (select_in ids tbl) = card (set ids \<inter> set (map j_id tbl))"
proof -
  have d: "distinct (map j_id (select_in ids tbl))"
    using assms unfolding select_in_def by (rule distinct_map_filter)
  have "set (map j_id (select_in ids tbl)) = set ids \<inter> set (map j_id tbl)"
    by (auto simp: select_in_def)
  then have "card (set ids \<inter> set (map j_id tbl)) = length (map j_id (select_in ids tbl))"
    using distinct_card [OF d] by simp
  then show ?thesis by simp
qed

lemma select_in_missing:
  assumes "distinct (map j_id tbl)" and "x \<in> set ids" and "x \<notin> set (map j_id tbl)"
  shows "length (select_in ids tbl) < length ids"
proof -
  have "set ids \<inter> set (map j_id tbl) \<subset> set ids"
    using assms(2,3) by blast
  then have "card (set ids \<inter> set (map j_id tbl)) < card (set ids)"
    by (intro psubset_card_mono) auto
  also have "\<dots> \<le> length ids" by (rule card_length)
  finally show ?thesis using length_select_in [OF assms(1)] by simp
qed

lemma select_in_repeated:
  assumes "distinct (map j_id tbl)" and "\<not> distinct ids"
  shows "length (select_in ids tbl) < length ids"
proof -
  have "card (set ids \<inter> set (map j_id tbl)) \<le> card (set ids)"
    by (intro card_mono) auto
  moreover have "card (set ids) \<noteq> length ids"
    using assms(2) card_distinct by blast
  then have "card (set ids) < length ids"
    using card_length [of ids] by linarith
  ultimately show ?thesis using length_select_in [OF assms(1), of ids] by simp
qed

lemma wait_loop_not_found:
  assumes "we_query_error e 0 = None"
    and "length (select_in ids (we_jobs e 0)) \<noteq> length ids"
  shows "wait_loop e s ids 0 0 = (JobsNotFound, we_query_ms e 0, 0)"
  by (subst wait_loop.simps) (simp add: MAX_WAIT_pos assms check_jobs_def)

text \<open>
  C5. When one of the named identifiers is absent from \<open>generation_jobs\<close> at the first
  SELECT, and that SELECT runs, \<open>wait_for_completion\<close> returns the envelope
  \<open>One or more jobs not found\<close> right after that SELECT: it has awaited no timer, and the
  time that has passed is the time of that one query.
\<close>

theorem wait_missing_job_fails_fast:
  assumes valid: "WaitForCompletionSchema_parse a = Inr wp"
    and pk: "distinct (map j_id (we_jobs e 0))"
    and runs: "we_query_error e 0 = None"
    and missing: "\<exists>x \<in> set (jobIds_of wp). x \<notin> set (map j_id (we_jobs e 0))"
  shows "wait_for_completion e a = (JobsNotFound, we_query_ms e 0, 0)"
proof -
  from missing obtain x where "x \<in> set (jobIds_of wp)" "x \<notin> set (map j_id (we_jobs e 0))" by blast
  then have "length (select_in (jobIds_of wp) (we_jobs e 0)) \<noteq> length (jobIds_of wp)"
    using select_in_missing [OF pk] by fastforce
  then show ?thesis
    using runs by (simp add: wait_for_completion_def valid wait_loop_not_found)
qed

theorem wait_missing_job_fails_fast_witness:
  "WaitForCompletionSchema_parse ex_args_wait_missing = Inr (Multi [''a'', ''zzz'']) \<and>
   ''zzz'' \<notin> set (map j_id (we_jobs (ex_wait_env 40) 0)) \<and>
   wait_for_completion (ex_wait_env 40) ex_args_wait_missing = (JobsNotFound, 40, 0)"
proof -
  have valid: "WaitForCompletionSchema_parse ex_args_wait_missing = Inr (Multi [''a'', ''zzz''])"
    by (simp add: WaitForCompletionSchema_parse_def ex_args_wait_missing_def)
  have pk: "distinct (map j_id (we_jobs (ex_wait_env 40) 0))"
    by (simp add: ex_wait_env_def ex_job_def)
  have runs: "we_query_error (ex_wait_env 40) 0 = None"
    by (simp add: ex_wait_env_simps)
  have absent: "''zzz'' \<notin> set (map j_id (we_jobs (ex_wait_env 40) 0))"
    by (simp add: ex_wait_env_def ex_job_def)
  then have missing: "\<exists>x \<in> set (jobIds_of (Multi [''a'', ''zzz''])).
      x \<notin> set (map j_id (we_jobs (ex_wait_env 40) 0))"
    by (simp add: jobIds_of_def)
  from wait_missing_job_fails_fast [OF valid pk runs missing] valid absent
  show ?thesis by (simp add: ex_wait_env_simps)
qed

text \<open>
  C9. A \<open>job_ids\<close> list that names an identifier twice is answered with
  \<open>One or more jobs not found\<close> at the first poll although every listed identifier is in
  the table: the SELECT returns each row once, and the code compares the number of rows
  with the length of the list.
\<close>

theorem wait_repeated_id_not_found:
  assumes valid: "WaitForCompletionSchema_parse a = Inr (Multi job_ids)"
    and pk: "distinct (map j_id (we_jobs e 0))"
    and runs: "we_query_error e 0 = None"
    and present: "set job_ids \<subseteq> set (map j_id (we_jobs e 0))"
    and twice: "\<not> distinct job_ids"
  shows "wait_for_completion e a = (JobsNotFound, we_query_ms e 0, 0)"
proof -
  have "length (select_in job_ids (we_jobs e 0)) \<noteq> length job_ids"
    using select_in_repeated [OF pk twice] by simp
  then show ?thesis
    using runs by (simp add: wait_for_completion_def valid jobIds_of_def wait_loop_not_found)
qed


theorem wait_repeated_id_not_found_witness:
  "WaitForCompletionSchema_parse ex_args_wait_twice = Inr (Multi [''a'', ''a'']) \<and>
   ''a'' \<in> set (map j_id (we_jobs (ex_wait_env 40) 0)) \<and>
   wait_for_completion (ex_wait_env 40) ex_args_wait_twice = (JobsNotFound, 40, 0)"
proof -
  have valid: "WaitForCompletionSchema_parse ex_args_wait_twice = Inr (Multi [''a'', ''a''])"
    by (simp add: WaitForCompletionSchema_parse_def ex_args_wait_twice_def)
  have pk: "distinct (map j_id (we_jobs (ex_wait_env 40) 0))"
    by (simp add: ex_wait_env_def ex_job_def)
  have runs: "we_query_error (ex_wait_env 40) 0 = None"
    by (simp add: ex_wait_env_simps)
  have present: "set [''a'', ''a''] \<subseteq> set (map j_id (we_jobs (ex_wait_env 40) 0))"
    by (simp add: ex_wait_env_def ex_job_def)
  have twice: "\<not> distinct [''a'', ''a'']"
    by simp
  from wait_repeated_id_not_found [OF valid pk runs present twice] valid present
  show ?thesis by (simp add: ex_wait_env_simps)
qed

lemma MAX_WAIT_seconds: "int ((MAX_WAIT ids + 500) div 1000) = 60 + 3 * int (length ids)"
  by (simp add: MAX_WAIT_def BASE_TIMEOUT_def PER_JOB_TIMEOUT_def)

lemma check_jobs_never_done:
  assumes "never_done e ids"
  shows "check_jobs s ids (select_in ids (we_jobs e i)) = None"
proof -
  let ?rs = "select_in ids (we_jobs e i)"
  have len: "length ?rs = length ids"
    and nofail: "\<forall>j \<in> set ?rs. j_status j \<noteq> Failed"
    and pend: "\<exists>j \<in> set ?rs. j_status j = Pending \<or> j_status j = Processing"
    using assms unfolding never_done_def by blast+
  have f: "filter (\<lambda>j. j_status j = Failed) ?rs = []"
    using nofail by (simp add: filter_empty_conv)
  have p: "filter (\<lambda>j. j_status j = Pending \<or> j_status j = Processing) ?rs \<noteq> []"
    using pend by (simp add: filter_empty_conv)
  show ?thesis
    by (simp add: check_jobs_def len f p Let_def)
qed

lemma wait_loop_times_out:
  assumes "never_done e ids"
  shows "\<exists>T k. wait_loop e s ids i t = (Timeout (60 + 3 * int (length ids)), T, k)
           \<and> MAX_WAIT ids \<le> T
           \<and> (if t < MAX_WAIT ids
              then i < k \<and> T < MAX_WAIT ids + we_query_ms e (k - 1) + POLL_INTERVAL + we_timer_late e (k - 1)
              else k = i \<and> T = t)"
  using assms
proof (induction e s ids i t rule: wait_loop.induct)
  case (1 e s ids i t)
  show ?case
  proof (cases "t < MAX_WAIT ids")
    case False
    then show ?thesis
      by (subst wait_loop.simps) (simp add: MAX_WAIT_seconds)
  next
    case True
    let ?t' = "t + we_query_ms e i + POLL_INTERVAL + we_timer_late e i"
    have q: "we_query_error e i = None"
      using "1.prems" unfolding never_done_def by blast
    have c: "check_jobs s ids (select_in ids (we_jobs e i)) = None"
      using "1.prems" by (intro check_jobs_never_done)
    have unfold: "wait_loop e s ids i t = wait_loop e s ids (Suc i) ?t'"
      by (subst wait_loop.simps) (simp add: True q c)
    from "1.IH" [OF True q c "1.prems"]
    obtain T k where
      r: "wait_loop e s ids (Suc i) ?t' = (Timeout (60 + 3 * int (length ids)), T, k)"
      and lo: "MAX_WAIT ids \<le> T"
      and hi: "if ?t' < MAX_WAIT ids
              then Suc i < k \<and> T < MAX_WAIT ids + we_query_ms e (k - 1) + POLL_INTERVAL + we_timer_late e (k - 1)
              else k = Suc i \<and> T = ?t'"
      by blast
    have "i < k \<and> T < MAX_WAIT ids + we_query_ms e (k - 1) + POLL_INTERVAL + we_timer_late e (k - 1)"
      using hi True by (cases "?t' < MAX_WAIT ids") auto
    then show ?thesis
      using r lo True unfolding unfold by auto
  qed
qed

lemma wait_loop_on_time:
  assumes "never_done e ids"
    and "\<forall>i. we_query_ms e i = 0 \<and> we_timer_late e i = 0"
    and "POLL_INTERVAL dvd t" and "t \<le> MAX_WAIT ids"
  shows "fst (snd (wait_loop e s ids i t)) = MAX_WAIT ids"
  using assms
proof (induction e s ids i t rule: wait_loop.induct)
  case (1 e s ids i t)
  show ?case
  proof (cases "t < MAX_WAIT ids")
    case False
    with "1.prems"(4) have "t = MAX_WAIT ids" by simp
    then show ?thesis
      by (subst wait_loop.simps) simp
  next
    case True
    have q: "we_query_error e i = None"
      using "1.prems"(1) unfolding never_done_def by blast
    have c: "check_jobs s ids (select_in ids (we_jobs e i)) = None"
      using "1.prems"(1) by (intro check_jobs_never_done)
    have z: "we_query_ms e i = 0" "we_timer_late e i = 0"
      using "1.prems"(2) by auto
    have unfold: "wait_loop e s ids i t = wait_loop e s ids (Suc i) (t + POLL_INTERVAL)"
      by (subst wait_loop.simps) (simp add: True q c z)
    have dvdM: "POLL_INTERVAL dvd MAX_WAIT ids"
      by (simp add: MAX_WAIT_def POLL_INTERVAL_def BASE_TIMEOUT_def PER_JOB_TIMEOUT_def)
    from "1.prems"(3) dvdM True have le: "t + POLL_INTERVAL \<le> MAX_WAIT ids"
      by (auto simp: dvd_def POLL_INTERVAL_def)
    have "fst (snd (wait_loop e s ids (Suc i) (t + we_query_ms e i + POLL_INTERVAL + we_timer_late e i)))
            = MAX_WAIT ids"
      using "1.prems" le z by (intro "1.IH" [OF True q c]) auto
    then show ?thesis
      unfolding unfold by (simp add: z)
  qed
qed


lemma WaitForCompletionSchema_parse_length:
  "WaitForCompletionSchema_parse a = Inr params \<Longrightarrow>
     1 \<le> length (jobIds_of params) \<and> length (jobIds_of params) \<le> 20"
  by (auto simp: WaitForCompletionSchema_parse_def jobIds_of_def
      split: option.splits jsval.splits if_splits)

text \<open>
  C4, as the code has it. For \<open>N\<close> named identifiers (\<open>1 \<le> N \<le> 20\<close>) the deadline is
  \<open>60000 + 3000 N\<close> ms and the timer delay is 3000 ms. When at every poll the SELECT
  runs and finds all named jobs, none of them has failed and one is still pending or
  processing, the call returns the timeout envelope naming \<open>60 + 3 N\<close> seconds. It returns
  no earlier than the deadline, and later than the deadline by less than one poll interval
  plus the time the last SELECT took and the lateness of the last timer. When the SELECTs
  and the timers take no extra time, it returns exactly at the deadline.
\<close>

theorem wait_timeout_window:
  assumes valid: "WaitForCompletionSchema_parse a = Inr params"
    and runs: "\<forall>i. we_query_error e i = None"
    and found: "\<forall>i. length (select_in (jobIds_of params) (we_jobs e i)) = length (jobIds_of params)"
    and nofail: "\<forall>i. \<forall>j \<in> set (select_in (jobIds_of params) (we_jobs e i)). j_status j \<noteq> Failed"
    and open_job: "\<forall>i. \<exists>j \<in> set (select_in (jobIds_of params) (we_jobs e i)).
                     j_status j = Pending \<or> j_status j = Processing"
  shows "\<exists>T k. wait_for_completion e a =
                  (Timeout (60 + 3 * int (length (jobIds_of params))), T, k)
           \<and> MAX_WAIT (jobIds_of params) = 60000 + 3000 * length (jobIds_of params)
           \<and> POLL_INTERVAL = 3000
           \<and> 1 \<le> length (jobIds_of params) \<and> length (jobIds_of params) \<le> 20
           \<and> 0 < k
           \<and> MAX_WAIT (jobIds_of params) \<le> T
           \<and> T < MAX_WAIT (jobIds_of params) + POLL_INTERVAL
                   + (we_query_ms e (k - 1) + we_timer_late e (k - 1))
           \<and> ((\<forall>i. we_query_ms e i = 0 \<and> we_timer_late e i = 0) \<longrightarrow>
                 T = MAX_WAIT (jobIds_of params))"
proof -
  let ?ids = "jobIds_of params"
  have never: "never_done e ?ids"
    unfolding never_done_def using runs found nofail open_job by blast
  have call: "wait_for_completion e a = wait_loop e (isSingle params) ?ids 0 0"
    by (simp add: wait_for_completion_def valid)
  from wait_loop_times_out [OF never, of "isSingle params" 0 0]
  obtain T k where
    r: "wait_loop e (isSingle params) ?ids 0 0 = (Timeout (60 + 3 * int (length ?ids)), T, k)"
    and lo: "MAX_WAIT ?ids \<le> T"
    and hi: "0 < k" "T < MAX_WAIT ?ids + we_query_ms e (k - 1) + POLL_INTERVAL + we_timer_late e (k - 1)"
    using MAX_WAIT_pos [of ?ids] by auto
  have ideal: "T = MAX_WAIT ?ids" if "\<forall>i. we_query_ms e i = 0 \<and> we_timer_late e i = 0"
    using wait_loop_on_time [OF never that, of 0 "isSingle params" 0] r by simp
  have cs: "MAX_WAIT ?ids = 60000 + 3000 * length ?ids" "POLL_INTERVAL = 3000"
    by (simp_all add: MAX_WAIT_def BASE_TIMEOUT_def PER_JOB_TIMEOUT_def POLL_INTERVAL_def)
  have "wait_for_completion e a = (Timeout (60 + 3 * int (length ?ids)), T, k)"
    using call r by simp
  moreover have "T < MAX_WAIT ?ids + POLL_INTERVAL + (we_query_ms e (k - 1) + we_timer_late e (k - 1))"
    using hi(2) by simp
  ultimately show ?thesis
    using cs WaitForCompletionSchema_parse_length [OF valid] hi(1) lo ideal by blast
qed

lemma ex_wait_on_time:
  "wait_for_completion (ex_wait_env 0) ex_args_wait_single = (Timeout 63, 63000, 21)"
  by (simp add: wait_for_completion_def ex_parse_wait_single isSingle_def jobIds_of_def
      wait_loop.simps MAX_WAIT_def BASE_TIMEOUT_def PER_JOB_TIMEOUT_def POLL_INTERVAL_def
      ex_wait_env_simps)

theorem wait_timeout_window_witness:
  "WaitForCompletionSchema_parse ex_args_wait_single = Inr (Single ''a'') \<and>
   wait_for_completion (ex_wait_env 0) ex_args_wait_single = (Timeout 63, 63000, 21) \<and>
   MAX_WAIT (jobIds_of (Single ''a'')) = 63000"
proof -
  have runs: "\<forall>i. we_query_error (ex_wait_env 0) i = None"
    by (simp add: ex_wait_env_simps)
  have found: "\<forall>i. length (select_in (jobIds_of (Single ''a'')) (we_jobs (ex_wait_env 0) i))
                  = length (jobIds_of (Single ''a''))"
    by (simp add: jobIds_of_def ex_select_single)
  have nofail: "\<forall>i. \<forall>j \<in> set (select_in (jobIds_of (Single ''a'')) (we_jobs (ex_wait_env 0) i)).
                  j_status j \<noteq> Failed"
    by (simp add: jobIds_of_def ex_select_single ex_job_def)
  have open_job: "\<forall>i. \<exists>j \<in> set (select_in (jobIds_of (Single ''a'')) (we_jobs (ex_wait_env 0) i)).
                     j_status j = Pending \<or> j_status j = Processing"
    by (simp add: jobIds_of_def ex_select_single ex_job_def)
  have zero: "\<forall>i. we_query_ms (ex_wait_env 0) i = 0 \<and> we_timer_late (ex_wait_env 0) i = 0"
    by (simp add: ex_wait_env_simps)
  from wait_timeout_window [OF ex_parse_wait_single runs found nofail open_job] zero
  obtain T k where "wait_for_completion (ex_wait_env 0) ex_args_wait_single =
                  (Timeout (60 + 3 * int (length (jobIds_of (Single ''a'')))), T, k)"
     and "T = MAX_WAIT (jobIds_of (Single ''a''))"
     and "MAX_WAIT (jobIds_of (Single ''a'')) = 60000 + 3000 * length (jobIds_of (Single ''a''))"
    by blast
  then show ?thesis
    using ex_wait_on_time by (simp add: ex_parse_wait_single jobIds_of_def)
qed

text \<open>
  C4 as stated fails: the deadline is only tested at the top of the loop, so the time of
  the SELECT adds to the overshoot. With one job that stays pending and SELECTs of 149 ms,
  iteration 21 starts at 62980 ms, before the deadline of 63000 ms, and the call returns
  at 66129 ms, more than one poll interval after the deadline.
\<close>

theorem wait_timeout_late_counterexample:
  "WaitForCompletionSchema_parse ex_args_wait_single = Inr (Single ''a'') \<and>
   (\<forall>i. we_query_error (ex_wait_env 149) i = None) \<and>
   (\<forall>i. map j_status (select_in [''a''] (we_jobs (ex_wait_env 149) i)) = [Pending]) \<and>
   wait_for_completion (ex_wait_env 149) ex_args_wait_single = (Timeout 63, 66129, 21) \<and>
   MAX_WAIT [''a''] = 63000 \<and> POLL_INTERVAL = 3000 \<and>
   MAX_WAIT [''a''] + POLL_INTERVAL < 66129"
proof -
  have "wait_for_completion (ex_wait_env 149) ex_args_wait_single = (Timeout 63, 66129, 21)"
    by (simp add: wait_for_completion_def ex_parse_wait_single isSingle_def jobIds_of_def
      wait_loop.simps MAX_WAIT_def BASE_TIMEOUT_def PER_JOB_TIMEOUT_def POLL_INTERVAL_def
      ex_wait_env_simps)
  then show ?thesis
    by (simp add: ex_parse_wait_single ex_select_single ex_job_def MAX_WAIT_def BASE_TIMEOUT_def
        PER_JOB_TIMEOUT_def POLL_INTERVAL_def ex_wait_env_simps)
qed

section \<open>One run of the loop body of the consumer\<close>

text \<open>A run ends in \<open>message.ack()\<close> or \<open>message.retry()\<close> after at most six statements.\<close>

lemma consumer_step_progress:
  "consumer_step v env = (v', env') \<Longrightarrow>
     (case inv_pc v of
        Step1 \<Rightarrow> inv_pc v' = Step2 \<or> (\<exists>m. inv_pc v' = Catch m)
      | Step2 \<Rightarrow> inv_pc v' = Step3 \<or> (\<exists>m. inv_pc v' = Catch m)
      | Step3 \<Rightarrow> (\<exists>u. inv_pc v' = Step4 u) \<or> (\<exists>m. inv_pc v' = Catch m)
      | Step4 u \<Rightarrow> (\<exists>u. inv_pc v' = Step5 u) \<or> (\<exists>m. inv_pc v' = Catch m)
      | Step5 u \<Rightarrow> inv_pc v' = Acked \<or> (\<exists>m. inv_pc v' = Catch m)
      | Catch m \<Rightarrow> inv_pc v' = Retried
      | Acked \<Rightarrow> inv_pc v' = Acked
      | Retried \<Rightarrow> inv_pc v' = Retried)"
  by (auto simp: consumer_step_def Let_def split: pc.splits option.splits sum.splits)

lemma steps_left_step:
  "consumer_step v env = (v', env') \<Longrightarrow> steps_left (inv_pc v') \<le> steps_left (inv_pc v) - 1"
  by (drule consumer_step_progress) (auto simp: steps_left_def split: pc.splits)

lemma steps_left_funpow:
  "((\<lambda>(v, env'). consumer_step v env') ^^ n) (v, env) = (v', env') \<Longrightarrow>
     steps_left (inv_pc v') \<le> steps_left (inv_pc v) - n"
proof (induction n arbitrary: v' env')
  case 0
  then show ?case by simp
next
  case (Suc n)
  obtain v1 env1 where mid: "((\<lambda>(v, env'). consumer_step v env') ^^ n) (v, env) = (v1, env1)"
    by (cases "((\<lambda>(v, env'). consumer_step v env') ^^ n) (v, env)")
  with Suc.prems have "consumer_step v1 env1 = (v', env')" by simp
  from steps_left_step [OF this] Suc.IH [OF mid] show ?case by simp
qed

lemma process_message_returns:
  "inv_pc (fst (process_message e msg env)) = Acked \<or> inv_pc (fst (process_message e msg env)) = Retried"
proof -
  obtain v' env' where r: "process_message e msg env = (v', env')"
    by (cases "process_message e msg env")
  then have "steps_left (inv_pc v') \<le> steps_left Step1 - 6"
    unfolding process_message_def using steps_left_funpow [of 6] by fastforce
  then have "steps_left (inv_pc v') = 0" by (simp add: steps_left_def)
  then show ?thesis
    unfolding r by (auto simp: steps_left_def split: pc.splits)
qed

lemma funpow6: "(f ^^ 6) x = f (f (f (f (f (f x)))))"
  by (simp add: numeral_eq_Suc)

text \<open>
  One run of the loop body decides the status of its job whatever the status was before:
  after \<open>message.ack()\<close> the job is completed with the uploaded URL, and after
  \<open>message.retry()\<close>, when the UPDATE in the \<open>catch\<close> block ran, it is failed with an error.
\<close>

lemma process_message_outcome:
  assumes "process_message e msg env = (v', env')"
    and "r' \<in> set (generation_jobs env')" and "j_id r' = m_jobId msg"
  shows "(inv_pc v' = Acked \<longrightarrow>
            j_status r' = Completed \<and> (\<exists>url. ce_uploadImage e = Inr url \<and> j_image_url r' = Some url)) \<and>
         (inv_pc v' = Retried \<and> ce_failed_error e = None \<longrightarrow>
            j_status r' = Failed \<and> j_error r' \<noteq> None)"
  using assms
  unfolding process_message_def funpow6
  by (auto simp: consumer_step_def Let_def D1_update_processing_def D1_update_completed_def
      D1_update_failed_def D1_insert_generation_def
      split: option.splits sum.splits if_splits)

section \<open>The job lifecycle under at-least-once delivery\<close>

lemma extends_refl: "extends env env"
  unfolding extends_def by (intro exI [of _ "[]"]) simp

lemma extends_trans:
  assumes "extends a b" and "extends b c"
  shows "extends a c"
proof -
  from assms(1) obtain r1 m1 where
    1: "generation_jobs b = generation_jobs a @ r1" "IMAGE_QUEUE b = IMAGE_QUEUE a @ m1"
       "generations b = generations a"
       "\<forall>r \<in> set r1. j_status r = Pending \<and> j_image_url r = None \<and> j_error r = None
            \<and> j_id r \<notin> set (map j_id (generation_jobs a))"
       "\<forall>m \<in> set m1. m_jobId m \<in> set (map j_id (generation_jobs b))"
    unfolding extends_def by blast
  from assms(2) obtain r2 m2 where
    2: "generation_jobs c = generation_jobs b @ r2" "IMAGE_QUEUE c = IMAGE_QUEUE b @ m2"
       "generations c = generations b"
       "\<forall>r \<in> set r2. j_status r = Pending \<and> j_image_url r = None \<and> j_error r = None
            \<and> j_id r \<notin> set (map j_id (generation_jobs b))"
       "\<forall>m \<in> set m2. m_jobId m \<in> set (map j_id (generation_jobs c))"
    unfolding extends_def by blast
  show ?thesis
    unfolding extends_def
    apply (intro exI [of _ "r1 @ r2"] exI [of _ "m1 @ m2"])
    using 1 2 apply auto
    done
qed

lemma extends_insert:
  assumes "D1_insert_job err (new_job p now jobId) (generation_jobs env) = Inr tbl"
  shows "extends env (env\<lparr>generation_jobs := tbl\<rparr>)"
proof -
  from assms have "tbl = generation_jobs env @ [new_job p now jobId]"
    and "jobId \<notin> set (map j_id (generation_jobs env))"
    by (auto simp: D1_insert_job_def new_job_def split: option.splits if_splits)
  then show ?thesis
    unfolding extends_def
    by (intro exI [of _ "[new_job p now jobId]"] exI [of _ "[]"]) (simp add: new_job_def)
qed

lemma extends_send:
  assumes "Queue_send err msg (IMAGE_QUEUE env) = Inr q"
    and "m_jobId msg \<in> set (map j_id (generation_jobs env))"
  shows "extends env (env\<lparr>IMAGE_QUEUE := q\<rparr>)"
proof -
  from assms(1) have "q = IMAGE_QUEUE env @ [msg]"
    by (auto simp: Queue_send_def split: option.splits)
  then show ?thesis
    unfolding extends_def using assms(2)
    by (intro exI [of _ "[]"] exI [of _ "[msg]"]) simp
qed

lemma create_jobs_extends: "extends env (snd (create_jobs e p i ids env))"
proof (induction e p i ids env rule: create_jobs.induct)
  case (1 e p i jobIds env)
  let ?id = "ge_randomUUID e i"
  show ?case
  proof (cases "int i < p_count p")
    case False
    then show ?thesis by (subst create_jobs.simps) (simp add: extends_refl)
  next
    case True
    show ?thesis
    proof (cases "D1_insert_job (ge_insert_error e i) (new_job p (ge_now e) ?id) (generation_jobs env)")
      case (Inl x)
      then show ?thesis
        by (subst create_jobs.simps) (simp add: True Let_def extends_refl)
    next
      case (Inr tbl)
      let ?env1 = "env\<lparr>generation_jobs := tbl\<rparr>"
      have e1: "extends env ?env1" using Inr by (rule extends_insert)
      have tbl: "tbl = generation_jobs env @ [new_job p (ge_now e) ?id]"
        using Inr by (auto simp: D1_insert_job_def split: option.splits if_splits)
      show ?thesis
      proof (cases "Queue_send (ge_send_error e i) (new_message p ?id) (IMAGE_QUEUE ?env1)")
        case (Inl x)
        then show ?thesis
          using e1 Inr by (subst create_jobs.simps) (simp add: True Let_def)
      next
        case (Inr q)
        have "m_jobId (new_message p ?id) \<in> set (map j_id (generation_jobs ?env1))"
          by (simp add: tbl new_message_def new_job_def)
        from extends_send [OF Inr this]
        have e2: "extends ?env1 (?env1\<lparr>IMAGE_QUEUE := q\<rparr>)" .
        have "extends (?env1\<lparr>IMAGE_QUEUE := q\<rparr>)
                (snd (create_jobs e p (Suc i) (jobIds @ [?id]) (?env1\<lparr>IMAGE_QUEUE := q\<rparr>)))"
          using "1.IH" [OF True refl refl \<open>D1_insert_job _ _ _ = Inr tbl\<close> refl Inr] .
        with e1 e2 have "extends env
                (snd (create_jobs e p (Suc i) (jobIds @ [?id]) (?env1\<lparr>IMAGE_QUEUE := q\<rparr>)))"
          by (blast intro: extends_trans)
        then show ?thesis
          using Inr \<open>D1_insert_job _ _ _ = Inr tbl\<close>
          by (subst create_jobs.simps) (simp add: True Let_def)
      qed
    qed
  qed
qed

lemma generate_image_extends: "extends env (snd (generate_image e a env))"
proof (cases "GenerateImageSchema_parse a")
  case (Inl x)
  then show ?thesis by (simp add: generate_image_def extends_refl)
next
  case (Inr p)
  have "snd (generate_image e a env) = snd (create_jobs e p 0 [] env)"
    by (simp add: generate_image_def Inr split: prod.splits sum.splits)
  then show ?thesis by (simp add: create_jobs_extends)
qed

lemma update_where_ids:
  "(\<And>j. j_id (upd j) = j_id j) \<Longrightarrow> map j_id (update_where jobId upd tbl) = map j_id tbl"
  by (simp add: update_where_def)

lemma update_where_row:
  "r' \<in> set (update_where jobId upd tbl) \<Longrightarrow>
     \<exists>r \<in> set tbl. r' = (if j_id r = jobId then upd r else r)"
  by (auto simp: update_where_def)

lemma update_where_mem:
  "r \<in> set tbl \<Longrightarrow> (if j_id r = jobId then upd r else r) \<in> set (update_where jobId upd tbl)"
  by (auto simp: update_where_def)

lemma D1_update_processing_where:
  "D1_update_processing now jobId = update_where jobId (\<lambda>j. j\<lparr>j_status := Processing, j_updated_at := now\<rparr>)"
  by (rule ext) (simp add: D1_update_processing_def update_where_def)

lemma D1_update_completed_where:
  "D1_update_completed url now jobId =
     update_where jobId (\<lambda>j. j\<lparr>j_status := Completed, j_image_url := Some url, j_updated_at := now\<rparr>)"
  by (rule ext) (simp add: D1_update_completed_def update_where_def)

lemma D1_update_failed_where:
  "D1_update_failed m now jobId =
     update_where jobId (\<lambda>j. j\<lparr>j_status := Failed, j_error := Some m, j_updated_at := now\<rparr>)"
  by (rule ext) (simp add: D1_update_failed_def update_where_def)

lemma safe_processing: "safe_update (\<lambda>j. j\<lparr>j_status := Processing, j_updated_at := now\<rparr>)"
  by (simp add: safe_update_def job_fields_ok_def)

lemma safe_completed:
  "safe_update (\<lambda>j. j\<lparr>j_status := Completed, j_image_url := Some url, j_updated_at := now\<rparr>)"
  by (simp add: safe_update_def job_fields_ok_def)

lemma safe_failed:
  "safe_update (\<lambda>j. j\<lparr>j_status := Failed, j_error := Some m, j_updated_at := now\<rparr>)"
  by (simp add: safe_update_def job_fields_ok_def)

lemma safe_update_fields:
  assumes "safe_update upd" and "\<forall>r \<in> set tbl. job_fields_ok r"
  shows "\<forall>r \<in> set (update_where jobId upd tbl). job_fields_ok r"
  using assms unfolding safe_update_def by (auto dest!: update_where_row)

lemma safe_update_ids:
  "safe_update upd \<Longrightarrow> map j_id (update_where jobId upd tbl) = map j_id tbl"
  unfolding safe_update_def by (intro update_where_ids) simp

lemma safe_update_inv_ok:
  assumes "safe_update upd" and "inv_ok tbl v"
  shows "inv_ok (update_where jobId upd tbl) v"
proof -
  have ids: "map j_id (update_where jobId upd tbl) = map j_id tbl"
    using assms(1) by (rule safe_update_ids)
  show ?thesis
    unfolding inv_ok_def ids
    using assms unfolding inv_ok_def safe_update_def
    by (auto dest!: update_where_row split: if_splits)
qed

lemma safe_update_gens:
  assumes "safe_update upd"
    and "\<forall>g \<in> set gens. \<exists>r \<in> set tbl. j_id r = g_job_id g \<and> j_image_url r \<noteq> None"
  shows "\<forall>g \<in> set gens. \<exists>r \<in> set (update_where jobId upd tbl). j_id r = g_job_id g \<and> j_image_url r \<noteq> None"
proof
  fix g assume "g \<in> set gens"
  with assms(2) obtain r where r: "r \<in> set tbl" "j_id r = g_job_id g" "j_image_url r \<noteq> None"
    by blast
  let ?r' = "if j_id r = jobId then upd r else r"
  have "?r' \<in> set (update_where jobId upd tbl)" using r(1) by (rule update_where_mem)
  moreover have "j_id ?r' = g_job_id g \<and> j_image_url ?r' \<noteq> None"
    using r(2,3) assms(1) unfolding safe_update_def by auto
  ultimately show "\<exists>r \<in> set (update_where jobId upd tbl). j_id r = g_job_id g \<and> j_image_url r \<noteq> None"
    by blast
qed

text \<open>After the UPDATE of an invocation's own job, every row of that job is as \<open>upd\<close> left it.\<close>

lemma own_update_inv_ok:
  assumes safe: "safe_update upd" and ok: "inv_ok tbl v"
    and url: "at_step5 c \<Longrightarrow> \<forall>j. j_image_url (upd j) \<noteq> None"
  shows "inv_ok (update_where (m_jobId (inv_msg v)) upd tbl) (v\<lparr>inv_pc := c\<rparr>)"
proof -
  have ids: "map j_id (update_where (m_jobId (inv_msg v)) upd tbl) = map j_id tbl"
    using safe by (rule safe_update_ids)
  show ?thesis
    unfolding inv_ok_def ids
    using ok safe url unfolding inv_ok_def safe_update_def
    by (auto dest!: update_where_row split: if_splits)
qed

lemma length_filter_update:
  assumes "k < length xs"
  shows "length (filter P (xs[k := y])) + (if P (xs ! k) then 1 else 0) =
         length (filter P xs) + (if P y then 1 else 0)"
  using assms
proof (induction xs arbitrary: k)
  case Nil
  then show ?case by simp
next
  case (Cons x xs)
  then show ?case by (cases k) auto
qed

lemma inv_ok_extends:
  assumes "extends env env'" and "inv_ok (generation_jobs env) v"
  shows "inv_ok (generation_jobs env') v"
proof -
  from assms(1) obtain rows where
    tbl: "generation_jobs env' = generation_jobs env @ rows"
    and new: "\<forall>r \<in> set rows. j_id r \<notin> set (map j_id (generation_jobs env))"
    unfolding extends_def by blast
  show ?thesis
    using assms(2) new unfolding inv_ok_def tbl by auto
qed

lemma sys_inv_extends:
  assumes inv: "sys_inv s" and ext: "extends (sys_env s) env'"
  shows "sys_inv (s\<lparr>sys_env := env'\<rparr>)"
proof -
  from ext obtain rows msgs where
    tbl: "generation_jobs env' = generation_jobs (sys_env s) @ rows"
    and q: "IMAGE_QUEUE env' = IMAGE_QUEUE (sys_env s) @ msgs"
    and g: "generations env' = generations (sys_env s)"
    and new: "\<forall>r \<in> set rows. j_status r = Pending \<and> j_image_url r = None \<and> j_error r = None
            \<and> j_id r \<notin> set (map j_id (generation_jobs (sys_env s)))"
    and sent: "\<forall>m \<in> set msgs. m_jobId m \<in> set (map j_id (generation_jobs env'))"
    unfolding extends_def by blast
  have a: "\<forall>r \<in> set (generation_jobs env'). job_fields_ok r"
    using inv new unfolding sys_inv_def tbl by (auto simp: job_fields_ok_def)
  have b: "\<forall>m \<in> set (IMAGE_QUEUE env'). m_jobId m \<in> set (map j_id (generation_jobs env'))"
    using inv sent unfolding sys_inv_def q by (auto simp: tbl)
  have c: "\<forall>v \<in> set (running s). inv_ok (generation_jobs env') v"
    using inv inv_ok_extends [OF ext] unfolding sys_inv_def by blast
  have d: "\<forall>g \<in> set (generations env').
        \<exists>r \<in> set (generation_jobs env'). j_id r = g_job_id g \<and> j_image_url r \<noteq> None"
    using inv unfolding sys_inv_def g tbl by (metis Un_iff set_append)
  have e: "\<forall>j. length (filter (\<lambda>g. g_job_id g = j) (generations env')) =
          length (filter (acked_for j) (running s))"
    using inv unfolding sys_inv_def g by blast
  show ?thesis
    unfolding sys_inv_def using a b c d e by simp
qed

lemma sys_inv_deliver:
  assumes inv: "sys_inv s" and sent: "msg \<in> set (IMAGE_QUEUE (sys_env s))"
  shows "sys_inv (s\<lparr>running := running s @ [\<lparr>inv_msg = msg, inv_env = e, inv_pc = Step1\<rparr>]\<rparr>)"
proof -
  have "m_jobId msg \<in> set (map j_id (generation_jobs (sys_env s)))"
    using inv sent unfolding sys_inv_def by blast
  then have new: "inv_ok (generation_jobs (sys_env s)) \<lparr>inv_msg = msg, inv_env = e, inv_pc = Step1\<rparr>"
    by (simp add: inv_ok_def past_step1_def at_step5_def)
  show ?thesis
    using inv new unfolding sys_inv_def by (auto simp: acked_for_def)
qed

lemma acked_count_update:
  assumes "k < length vs" and "acked_for j v' = acked_for j (vs ! k)"
  shows "length (filter (acked_for j) (vs[k := v'])) = length (filter (acked_for j) vs)"
  using length_filter_update [OF assms(1), of "acked_for j" v'] assms(2) by simp

lemma running_update_cases:
  assumes "u \<in> set (vs[k := v'])"
  shows "u = v' \<or> u \<in> set vs"
  using assms set_update_subset_insert [of vs k v'] by auto

lemma sys_inv_pc_only:
  assumes inv: "sys_inv s" and k: "k < length (running s)"
    and ack: "(c = Acked) = (inv_pc (running s ! k) = Acked)"
    and p1: "past_step1 c \<Longrightarrow> past_step1 (inv_pc (running s ! k))"
    and p5: "at_step5 c \<Longrightarrow> at_step5 (inv_pc (running s ! k))"
  shows "sys_inv \<lparr>sys_env = sys_env s, running = (running s)[k := (running s ! k)\<lparr>inv_pc := c\<rparr>]\<rparr>"
proof -
  let ?v = "running s ! k"
  have v: "inv_ok (generation_jobs (sys_env s)) ?v"
    using inv k unfolding sys_inv_def by simp
  then have v': "inv_ok (generation_jobs (sys_env s)) (?v\<lparr>inv_pc := c\<rparr>)"
    using p1 p5 unfolding inv_ok_def by auto
  have c: "\<forall>u \<in> set ((running s)[k := ?v\<lparr>inv_pc := c\<rparr>]). inv_ok (generation_jobs (sys_env s)) u"
    using inv v' unfolding sys_inv_def by (auto dest!: running_update_cases)
  have "acked_for j (?v\<lparr>inv_pc := c\<rparr>) = acked_for j ?v" for j
    using ack by (simp add: acked_for_def)
  then have e: "length (filter (acked_for j) ((running s)[k := ?v\<lparr>inv_pc := c\<rparr>])) =
      length (filter (acked_for j) (running s))" for j
    using k by (intro acked_count_update)
  show ?thesis
    using inv c e unfolding sys_inv_def by simp
qed

lemma sys_inv_update:
  assumes inv: "sys_inv s" and k: "k < length (running s)"
    and safe: "safe_update upd"
    and ack: "c \<noteq> Acked" "inv_pc (running s ! k) \<noteq> Acked"
    and url: "at_step5 c \<Longrightarrow> \<forall>j. j_image_url (upd j) \<noteq> None"
  shows "sys_inv \<lparr>sys_env = (sys_env s)\<lparr>generation_jobs :=
                     update_where (m_jobId (inv_msg (running s ! k))) upd (generation_jobs (sys_env s))\<rparr>,
                 running = (running s)[k := (running s ! k)\<lparr>inv_pc := c\<rparr>]\<rparr>"
proof -
  let ?v = "running s ! k"
  let ?tbl = "generation_jobs (sys_env s)"
  let ?tbl' = "update_where (m_jobId (inv_msg ?v)) upd ?tbl"
  have ids: "map j_id ?tbl' = map j_id ?tbl"
    using safe by (rule safe_update_ids)
  have a: "\<forall>r \<in> set ?tbl'. job_fields_ok r"
    using inv safe unfolding sys_inv_def by (intro safe_update_fields) auto
  have b: "\<forall>m \<in> set (IMAGE_QUEUE (sys_env s)). m_jobId m \<in> set (map j_id ?tbl')"
    using inv unfolding sys_inv_def ids by blast
  have v: "inv_ok ?tbl ?v"
    using inv k unfolding sys_inv_def by simp
  have v': "inv_ok ?tbl' (?v\<lparr>inv_pc := c\<rparr>)"
    using safe v url by (rule own_update_inv_ok)
  have others: "\<forall>u \<in> set (running s). inv_ok ?tbl' u"
    using inv safe unfolding sys_inv_def by (auto intro: safe_update_inv_ok)
  have c: "\<forall>u \<in> set ((running s)[k := ?v\<lparr>inv_pc := c\<rparr>]). inv_ok ?tbl' u"
    using v' others by (auto dest!: running_update_cases)
  have d: "\<forall>g \<in> set (generations (sys_env s)).
        \<exists>r \<in> set ?tbl'. j_id r = g_job_id g \<and> j_image_url r \<noteq> None"
    using inv safe unfolding sys_inv_def by (intro safe_update_gens) auto
  have "acked_for j (?v\<lparr>inv_pc := c\<rparr>) = acked_for j ?v" for j
    using ack by (simp add: acked_for_def)
  then have e: "length (filter (acked_for j) ((running s)[k := ?v\<lparr>inv_pc := c\<rparr>])) =
      length (filter (acked_for j) (running s))" for j
    using k by (intro acked_count_update)
  show ?thesis
    using inv a b c d e unfolding sys_inv_def by simp
qed

lemma sys_inv_insert_generation:
  assumes inv: "sys_inv s" and k: "k < length (running s)"
    and pc: "inv_pc (running s ! k) = Step5 url"
    and row: "g_job_id row = m_jobId (inv_msg (running s ! k))"
  shows "sys_inv \<lparr>sys_env = (sys_env s)\<lparr>generations := generations (sys_env s) @ [row]\<rparr>,
                 running = (running s)[k := (running s ! k)\<lparr>inv_pc := Acked\<rparr>]\<rparr>"
proof -
  let ?v = "running s ! k"
  let ?tbl = "generation_jobs (sys_env s)"
  have v: "inv_ok ?tbl ?v"
    using inv k unfolding sys_inv_def by simp
  have v': "inv_ok ?tbl (?v\<lparr>inv_pc := Acked\<rparr>)"
    using v unfolding inv_ok_def by (simp add: past_step1_def at_step5_def)
  have c: "\<forall>u \<in> set ((running s)[k := ?v\<lparr>inv_pc := Acked\<rparr>]). inv_ok ?tbl u"
    using inv v' unfolding sys_inv_def by (auto dest!: running_update_cases)
  have "\<exists>r \<in> set ?tbl. j_id r = g_job_id row \<and> j_image_url r \<noteq> None"
    using v pc row unfolding inv_ok_def by (auto simp: at_step5_def)
  then have d: "\<forall>g \<in> set (generations (sys_env s) @ [row]).
        \<exists>r \<in> set ?tbl. j_id r = g_job_id g \<and> j_image_url r \<noteq> None"
    using inv unfolding sys_inv_def by auto
  have e: "length (filter (\<lambda>g. g_job_id g = j) (generations (sys_env s) @ [row])) =
      length (filter (acked_for j) ((running s)[k := ?v\<lparr>inv_pc := Acked\<rparr>]))" for j
  proof -
    have old: "length (filter (\<lambda>g. g_job_id g = j) (generations (sys_env s))) =
          length (filter (acked_for j) (running s))"
      using inv unfolding sys_inv_def by blast
    have "length (filter (acked_for j) ((running s)[k := ?v\<lparr>inv_pc := Acked\<rparr>]))
            + (if acked_for j ?v then 1 else 0) =
          length (filter (acked_for j) (running s))
            + (if acked_for j (?v\<lparr>inv_pc := Acked\<rparr>) then 1 else 0)"
      using k by (rule length_filter_update)
    moreover have "\<not> acked_for j ?v" using pc by (simp add: acked_for_def)
    moreover have "acked_for j (?v\<lparr>inv_pc := Acked\<rparr>) \<longleftrightarrow> g_job_id row = j"
      using row by (simp add: acked_for_def)
    ultimately show ?thesis using old by simp
  qed
  show ?thesis
    using inv c d e unfolding sys_inv_def by simp
qed

lemma consumer_step_cases:
  assumes "consumer_step v env = (v', env')"
  obtains
    (pc_only) c where "env' = env" "v' = v\<lparr>inv_pc := c\<rparr>" "(c = Acked) = (inv_pc v = Acked)"
      "past_step1 c \<longrightarrow> past_step1 (inv_pc v)" "at_step5 c \<longrightarrow> at_step5 (inv_pc v)"
  | (update) upd c st where
      "env' = env\<lparr>generation_jobs := update_where (m_jobId (inv_msg v)) upd (generation_jobs env)\<rparr>"
      "v' = v\<lparr>inv_pc := c\<rparr>" "c \<noteq> Acked" "inv_pc v \<noteq> Acked"
      "at_step5 c \<longrightarrow> (\<forall>j. j_image_url (upd j) \<noteq> None)"
      "sets_status st upd"
      "st = Processing \<and> inv_pc v = Step1 \<or> st = Completed \<and> (\<exists>u. inv_pc v = Step4 u)
         \<or> st = Failed \<and> (\<exists>m. inv_pc v = Catch m)"
  | (insert) url row where "inv_pc v = Step5 url" "g_job_id row = m_jobId (inv_msg v)"
      "env' = env\<lparr>generations := generations env @ [row]\<rparr>" "v' = v\<lparr>inv_pc := Acked\<rparr>"
proof (cases "inv_pc v")
  case Step1
  show ?thesis
  proof (cases "ce_processing_error (inv_env v)")
    case None
    show ?thesis
      apply (rule update [of "\<lambda>j. j\<lparr>j_status := Processing, j_updated_at := ce_now_processing (inv_env v)\<rparr>" Step2 Processing])
      using assms Step1 None
      by (auto simp: consumer_step_def Let_def D1_update_processing_where sets_status_def safe_processing at_step5_def)
  next
    case (Some m)
    show ?thesis
      apply (rule pc_only [of "Catch m"])
      using assms Step1 Some
      by (auto simp: consumer_step_def Let_def past_step1_def at_step5_def)
  qed
next
  case Step2
  show ?thesis
  proof (cases "ce_generateImage_error (inv_env v)")
    case None
    show ?thesis
      apply (rule pc_only [of Step3])
      using assms Step2 None
      by (auto simp: consumer_step_def Let_def past_step1_def at_step5_def)
  next
    case (Some m)
    show ?thesis
      apply (rule pc_only [of "Catch m"])
      using assms Step2 Some
      by (auto simp: consumer_step_def Let_def past_step1_def at_step5_def)
  qed
next
  case Step3
  show ?thesis
  proof (cases "ce_uploadImage (inv_env v)")
    case (Inl m)
    show ?thesis
      apply (rule pc_only [of "Catch m"])
      using assms Step3 Inl
      by (auto simp: consumer_step_def Let_def past_step1_def at_step5_def)
  next
    case (Inr url)
    show ?thesis
      apply (rule pc_only [of "Step4 url"])
      using assms Step3 Inr
      by (auto simp: consumer_step_def Let_def past_step1_def at_step5_def)
  qed
next
  case (Step4 url)
  show ?thesis
  proof (cases "ce_completed_error (inv_env v)")
    case None
    show ?thesis
      apply (rule update [of "\<lambda>j. j\<lparr>j_status := Completed, j_image_url := Some url,
                                  j_updated_at := ce_now_completed (inv_env v)\<rparr>" "Step5 url" Completed])
      using assms Step4 None
      by (auto simp: consumer_step_def Let_def D1_update_completed_where sets_status_def safe_completed
          past_step1_def)
  next
    case (Some m)
    show ?thesis
      apply (rule pc_only [of "Catch m"])
      using assms Step4 Some
      by (auto simp: consumer_step_def Let_def past_step1_def at_step5_def)
  qed
next
  case (Step5 url)
  let ?row = "\<lparr>g_id = ce_randomUUID (inv_env v), g_job_id = m_jobId (inv_msg v), g_image_url = url,
                g_prompt = m_prompt (inv_msg v), g_model = m_model (inv_msg v),
                g_created_at = ce_now_completed (inv_env v)\<rparr>"
  show ?thesis
  proof (cases "D1_insert_generation (ce_generation_error (inv_env v)) ?row
                  (generation_jobs env) (generations env)")
    case (Inl x)
    show ?thesis
      apply (rule pc_only [of "Catch (error_message x)"])
      using assms Step5 Inl
      by (auto simp: consumer_step_def Let_def past_step1_def at_step5_def)
  next
    case (Inr tbl)
    then have tbl: "tbl = generations env @ [?row]"
      by (auto simp: D1_insert_generation_def split: option.splits if_splits)
    show ?thesis
      apply (rule insert [of url ?row])
      using assms Step5 Inr tbl
      by (auto simp: consumer_step_def Let_def Let_def)
  qed
next
  case (Catch m)
  show ?thesis
  proof (cases "ce_failed_error (inv_env v)")
    case None
    show ?thesis
      apply (rule update [of "\<lambda>j. j\<lparr>j_status := Failed, j_error := Some m,
                                  j_updated_at := ce_now_failed (inv_env v)\<rparr>" Retried Failed])
      using assms Catch None
      by (auto simp: consumer_step_def Let_def D1_update_failed_where sets_status_def safe_failed at_step5_def)
  next
    case (Some m')
    show ?thesis
      apply (rule pc_only [of Retried])
      using assms Catch Some
      by (auto simp: consumer_step_def Let_def past_step1_def at_step5_def)
  qed
next
  case Acked
  show ?thesis
    apply (rule pc_only [of Acked])
    using assms Acked
    by (auto simp: consumer_step_def Let_def past_step1_def at_step5_def)
next
  case Retried
  show ?thesis
    apply (rule pc_only [of Retried])
    using assms Retried
    by (auto simp: consumer_step_def Let_def past_step1_def at_step5_def)
qed

lemma sys_inv_advance:
  assumes inv: "sys_inv s" and k: "k < length (running s)"
    and step: "consumer_step (running s ! k) (sys_env s) = (v', env')"
  shows "sys_inv \<lparr>sys_env = env', running = (running s)[k := v']\<rparr>"
  using step
proof (cases rule: consumer_step_cases)
  case (pc_only c)
  then show ?thesis using sys_inv_pc_only [OF inv k, of c] by simp
next
  case (update upd c st)
  then show ?thesis
    using sys_inv_update [OF inv k, of upd c] by (simp add: sets_status_def)
next
  case (insert url row)
  then show ?thesis using sys_inv_insert_generation [OF inv k, of url row] by simp
qed

lemma sys_inv_step:
  assumes "sys_inv s" and "sys_step ev s = Some s'"
  shows "sys_inv s'"
proof (cases ev)
  case (Tool_generate e a)
  then show ?thesis
    using assms sys_inv_extends [OF assms(1) generate_image_extends [of "sys_env s" e a]]
    by (simp add: sys_step_def)
next
  case (Deliver msg e)
  then show ?thesis
    using assms sys_inv_deliver [OF assms(1), of msg e]
    by (auto simp: sys_step_def split: if_splits)
next
  case (Advance k)
  then show ?thesis
    using assms sys_inv_advance [OF assms(1), of k]
    by (auto simp: sys_step_def split: if_splits prod.splits)
qed

lemma sys_inv_run:
  "sys_inv s \<Longrightarrow> run evs s = Some s' \<Longrightarrow> sys_inv s'"
proof (induction evs arbitrary: s)
  case Nil
  then show ?case by simp
next
  case (Cons ev evs)
  then show ?case
    by (auto split: option.splits dest: sys_inv_step)
qed

lemma sys_inv_init: "sys_inv init_system"
  by (simp add: sys_inv_def init_system_def)

lemma sys_inv_reachable: "run evs init_system = Some s \<Longrightarrow> sys_inv s"
  using sys_inv_run [OF sys_inv_init] .

lemma find_update_where:
  assumes "\<And>r. j_id (upd r) = j_id r"
  shows "find (\<lambda>r. j_id r = j) (update_where jobId upd tbl) =
         map_option (\<lambda>r. if j_id r = jobId then upd r else r) (find (\<lambda>r. j_id r = j) tbl)"
  using assms by (induction tbl) (auto simp: update_where_def)

lemma find_append_rows:
  "find P (xs @ ys) = (case find P xs of None \<Rightarrow> find P ys | Some x \<Rightarrow> Some x)"
  by (induction xs) auto

lemma find_in_set: "find P xs = Some x \<Longrightarrow> x \<in> set xs \<and> P x"
  by (induction xs) (auto split: if_splits)

lemma status_extends:
  assumes "extends (sys_env s) env'"
  shows "status_of (s\<lparr>sys_env := env'\<rparr>) j = status_of s j
       \<or> (status_of s j = None \<and> status_of (s\<lparr>sys_env := env'\<rparr>) j = Some Pending)"
proof -
  from assms obtain rows where
    tbl: "generation_jobs env' = generation_jobs (sys_env s) @ rows"
    and new: "\<forall>r \<in> set rows. j_status r = Pending"
    unfolding extends_def by blast
  show ?thesis
  proof (cases "find (\<lambda>r. j_id r = j) (generation_jobs (sys_env s))")
    case (Some r)
    then show ?thesis by (simp add: status_of_def tbl find_append_rows)
  next
    case None
    show ?thesis
    proof (cases "find (\<lambda>r. j_id r = j) rows")
      case None
      with \<open>find _ (generation_jobs (sys_env s)) = None\<close> show ?thesis
        by (simp add: status_of_def tbl find_append_rows)
    next
      case (Some r)
      then have "j_status r = Pending" using new find_in_set by fastforce
      with Some \<open>find _ (generation_jobs (sys_env s)) = None\<close> show ?thesis
        by (simp add: status_of_def tbl find_append_rows)
    qed
  qed
qed

lemma status_update:
  assumes set: "sets_status st upd"
    and st: "st = Completed \<Longrightarrow> past_step1 (inv_pc v)"
    and ok: "inv_ok (generation_jobs (sys_env s)) v"
  shows "status_of \<lparr>sys_env = (sys_env s)\<lparr>generation_jobs :=
                           update_where (m_jobId (inv_msg v)) upd (generation_jobs (sys_env s))\<rparr>,
                       running = vs\<rparr> j = status_of s j
       \<or> (j = m_jobId (inv_msg v) \<and> status_of s j \<noteq> None
           \<and> status_of \<lparr>sys_env = (sys_env s)\<lparr>generation_jobs :=
                           update_where (m_jobId (inv_msg v)) upd (generation_jobs (sys_env s))\<rparr>,
                       running = vs\<rparr> j = Some st
           \<and> (st = Completed \<longrightarrow> status_of s j \<noteq> Some Pending))"
proof -
  have id: "\<And>r. j_id (upd r) = j_id r" and sets: "\<And>r. j_status (upd r) = st"
    using set unfolding sets_status_def safe_update_def by auto
  show ?thesis
  proof (cases "find (\<lambda>r. j_id r = j) (generation_jobs (sys_env s))")
    case None
    then show ?thesis
      by (simp add: status_of_def find_update_where [OF id])
  next
    case (Some r)
    then have r: "r \<in> set (generation_jobs (sys_env s))" "j_id r = j"
      using find_in_set by fastforce+
    show ?thesis
    proof (cases "j = m_jobId (inv_msg v)")
      case False
      then show ?thesis
        using Some r by (simp add: status_of_def find_update_where [OF id])
    next
      case True
      have new: "status_of \<lparr>sys_env = (sys_env s)\<lparr>generation_jobs :=
                           update_where (m_jobId (inv_msg v)) upd (generation_jobs (sys_env s))\<rparr>,
                       running = vs\<rparr> j = Some st"
        using Some r True by (simp add: status_of_def find_update_where [OF id] sets)
      have old: "status_of s j = Some (j_status r)"
        using Some by (simp add: status_of_def)
      have "j_status r \<noteq> Pending" if "st = Completed"
        using ok r True st [OF that] unfolding inv_ok_def by blast
      then show ?thesis
        using True unfolding new old by simp
    qed
  qed
qed

lemma status_same_jobs:
  "generation_jobs (sys_env s') = generation_jobs (sys_env s) \<Longrightarrow> status_of s' j = status_of s j"
  by (simp add: status_of_def)

lemma changed_by_step:
  assumes inv: "sys_inv s" and step: "sys_step ev s = Some s'"
  shows "changed_by s ev j (status_of s j) (status_of s' j)"
proof (cases ev)
  case (Tool_generate e a)
  then have s': "s' = s\<lparr>sys_env := snd (generate_image e a (sys_env s))\<rparr>"
    using step by (simp add: sys_step_def)
  have "status_of s' j = status_of s j
       \<or> (status_of s j = None \<and> status_of s' j = Some Pending)"
    using status_extends [OF generate_image_extends [of "sys_env s" e a], of j]
    by (simp only: s')
  then show ?thesis
    unfolding changed_by_def using Tool_generate by fastforce
next
  case (Deliver msg e)
  then have "generation_jobs (sys_env s') = generation_jobs (sys_env s)"
    using step by (auto simp: sys_step_def split: if_splits)
  then have "status_of s' j = status_of s j"
    by (rule status_same_jobs)
  then show ?thesis
    unfolding changed_by_def by simp
next
  case (Advance k)
  with step obtain v' env' where
    k: "k < length (running s)"
    and cs: "consumer_step (running s ! k) (sys_env s) = (v', env')"
    and s': "s' = \<lparr>sys_env = env', running = (running s)[k := v']\<rparr>"
    by (auto simp: sys_step_def split: if_splits prod.splits)
  have ok: "inv_ok (generation_jobs (sys_env s)) (running s ! k)"
    using inv k unfolding sys_inv_def by simp
  from cs show ?thesis
  proof (cases rule: consumer_step_cases)
    case (pc_only c)
    then have "status_of s' j = status_of s j"
      unfolding s' by (intro status_same_jobs) simp
    then show ?thesis unfolding changed_by_def by simp
  next
    case (update upd c st)
    have past: "past_step1 (inv_pc (running s ! k))" if "st = Completed"
      using update(7) that by (auto simp: past_step1_def)
    from status_update [OF update(6) past ok, of "(running s)[k := v']" j]
    have "status_of s' j = status_of s j
       \<or> (j = m_jobId (inv_msg (running s ! k)) \<and> status_of s j \<noteq> None
           \<and> status_of s' j = Some st
           \<and> (st = Completed \<longrightarrow> status_of s j \<noteq> Some Pending))"
      unfolding s' update(1) by simp
    then show ?thesis
      using update(7) k Advance unfolding changed_by_def by auto
  next
    case (insert url row)
    then have "status_of s' j = status_of s j"
      unfolding s' by (intro status_same_jobs) simp
    then show ?thesis unfolding changed_by_def by simp
  qed
qed

lemma ex_generate_one:
  "generate_image ex_gen_env ex_args_one env0 =
     (GenerateStarted (Some (uuid_of 0)) ''a red apple'' ''flux-schnell'',
      env0\<lparr>generation_jobs := generation_jobs env0 @
              [\<lparr>j_id = uuid_of 0, j_status = Pending, j_prompt = ''a red apple'',
                j_model = ''flux-schnell'', j_image_url = None, j_error = None,
                j_created_at = 1000, j_updated_at = 1000\<rparr>],
           IMAGE_QUEUE := IMAGE_QUEUE env0 @ [ex_msg]\<rparr>)"
  if "uuid_of 0 \<notin> set (map j_id (generation_jobs env0))"
  using that
  by (simp add: generate_image_def GenerateImageSchema_parse_def ex_args_one_def parse_prompt_def
      parse_model_def parse_count_def model_enum_def create_jobs.simps ex_gen_env_def
      D1_insert_job_def Queue_send_def new_job_def new_message_def js_index_def ex_msg_def Let_def)

lemmas ex_eval =
  sys_step_def init_system_def consumer_step_def ex_ce_def ex_msg_def uuid_of_def
  D1_update_processing_def D1_update_completed_def D1_update_failed_def D1_insert_generation_def
  status_of_def Let_def

lemma ex_run_completed:
  "run ex_trace_completed init_system =
     Some \<lparr>sys_env =
            \<lparr>generation_jobs =
               [\<lparr>j_id = uuid_of 0, j_status = Completed, j_prompt = ''a red apple'',
                 j_model = ''flux-schnell'', j_image_url = Some ''https://r2.dev/1.png'',
                 j_error = None, j_created_at = 1000, j_updated_at = 3000\<rparr>],
             generations =
               [\<lparr>g_id = ''g1'', g_job_id = uuid_of 0, g_image_url = ''https://r2.dev/1.png'',
                 g_prompt = ''a red apple'', g_model = ''flux-schnell'', g_created_at = 3000\<rparr>],
             IMAGE_QUEUE = [ex_msg]\<rparr>,
           running = [\<lparr>inv_msg = ex_msg, inv_env = ex_ce ''g1'' (Inr ''https://r2.dev/1.png''),
                       inv_pc = Acked\<rparr>]\<rparr>"
  unfolding ex_trace_completed_def
  by (simp add: sys_step_def init_system_def ex_generate_one)
     (simp add: ex_eval)

lemma run_append:
  "run (evs @ evs') s = (case run evs s of None \<Rightarrow> None | Some s' \<Rightarrow> run evs' s')"
  by (induction evs arbitrary: s) (auto split: option.splits)

lemma ex_run_redelivered:
  "run ex_trace_redelivered init_system =
     Some \<lparr>sys_env =
            \<lparr>generation_jobs =
               [\<lparr>j_id = uuid_of 0, j_status = Completed, j_prompt = ''a red apple'',
                 j_model = ''flux-schnell'', j_image_url = Some ''https://r2.dev/1.png'',
                 j_error = None, j_created_at = 1000, j_updated_at = 3000\<rparr>],
             generations =
               [\<lparr>g_id = ''g1'', g_job_id = uuid_of 0, g_image_url = ''https://r2.dev/1.png'',
                 g_prompt = ''a red apple'', g_model = ''flux-schnell'', g_created_at = 3000\<rparr>],
             IMAGE_QUEUE = [ex_msg]\<rparr>,
           running = [\<lparr>inv_msg = ex_msg, inv_env = ex_ce ''g1'' (Inr ''https://r2.dev/1.png''),
                       inv_pc = Acked\<rparr>,
                      \<lparr>inv_msg = ex_msg, inv_env = ex_ce ''g2'' (Inr ''https://r2.dev/2.png''),
                       inv_pc = Step1\<rparr>]\<rparr>"
  unfolding ex_trace_redelivered_def run_append ex_run_completed
  by (simp add: sys_step_def)

text \<open>
  C1, as the code has it. In every reachable execution, duplicate and overlapping
  deliveries included, one step changes the status of a job in no other way than these:
  a \<open>generate_image\<close> call creates the row as \<open>pending\<close>; Step 1 of an invocation for this
  job sets \<open>processing\<close> whatever the status was, \<open>completed\<close> and \<open>failed\<close> included;
  Step 4 of an invocation for this job sets \<open>completed\<close>, and the status before is never
  \<open>pending\<close>; the \<open>catch\<close> block of an invocation for this job sets \<open>failed\<close> whatever the
  status was. So a row is never removed and never returns to \<open>pending\<close>, and a \<open>completed\<close>
  job keeps its status under every step but two: Step 1 of a delivery of its own message,
  and the \<open>catch\<close> block of a delivery of its own message (reached, for example, when
  Step 5 throws after Step 4).
\<close>

theorem status_steps:
  assumes "run evs init_system = Some s" and "sys_step ev s = Some s'"
  shows "(status_of s' j = status_of s j
          \<or> ((\<exists>e args. ev = Tool_generate e args)
                \<and> status_of s j = None \<and> status_of s' j = Some Pending)
          \<or> (\<exists>k. ev = Advance k \<and> k < length (running s)
                \<and> m_jobId (inv_msg (running s ! k)) = j
                \<and> status_of s j \<noteq> None
                \<and> (inv_pc (running s ! k) = Step1 \<and> status_of s' j = Some Processing
                   \<or> (\<exists>u. inv_pc (running s ! k) = Step4 u)
                        \<and> status_of s j \<noteq> Some Pending \<and> status_of s' j = Some Completed
                   \<or> (\<exists>m. inv_pc (running s ! k) = Catch m) \<and> status_of s' j = Some Failed)))
       \<and> (status_of s j = Some Completed \<and> status_of s' j \<noteq> Some Completed \<longrightarrow>
            (\<exists>k. ev = Advance k \<and> k < length (running s)
                \<and> m_jobId (inv_msg (running s ! k)) = j
                \<and> (inv_pc (running s ! k) = Step1 \<and> status_of s' j = Some Processing
                   \<or> (\<exists>m. inv_pc (running s ! k) = Catch m) \<and> status_of s' j = Some Failed)))"
proof -
  have c: "changed_by s ev j (status_of s j) (status_of s' j)"
    using changed_by_step [OF sys_inv_reachable [OF assms(1)] assms(2)] .
  then have first: "status_of s' j = status_of s j
          \<or> ((\<exists>e args. ev = Tool_generate e args)
                \<and> status_of s j = None \<and> status_of s' j = Some Pending)
          \<or> (\<exists>k. ev = Advance k \<and> k < length (running s)
                \<and> m_jobId (inv_msg (running s ! k)) = j
                \<and> status_of s j \<noteq> None
                \<and> (inv_pc (running s ! k) = Step1 \<and> status_of s' j = Some Processing
                   \<or> (\<exists>u. inv_pc (running s ! k) = Step4 u)
                        \<and> status_of s j \<noteq> Some Pending \<and> status_of s' j = Some Completed
                   \<or> (\<exists>m. inv_pc (running s ! k) = Catch m) \<and> status_of s' j = Some Failed))"
    unfolding changed_by_def .
  have second: "\<exists>k. ev = Advance k \<and> k < length (running s)
                \<and> m_jobId (inv_msg (running s ! k)) = j
                \<and> (inv_pc (running s ! k) = Step1 \<and> status_of s' j = Some Processing
                   \<or> (\<exists>m. inv_pc (running s ! k) = Catch m) \<and> status_of s' j = Some Failed)"
    if "status_of s j = Some Completed" "status_of s' j \<noteq> Some Completed"
    using c that unfolding changed_by_def by auto
  show ?thesis
    using first second by blast
qed

lemma ex_step_redelivered:
  "sys_step (Advance 1) (the (run ex_trace_redelivered init_system)) =
     Some \<lparr>sys_env =
            \<lparr>generation_jobs =
               [\<lparr>j_id = uuid_of 0, j_status = Processing, j_prompt = ''a red apple'',
                 j_model = ''flux-schnell'', j_image_url = Some ''https://r2.dev/1.png'',
                 j_error = None, j_created_at = 1000, j_updated_at = 2000\<rparr>],
             generations =
               [\<lparr>g_id = ''g1'', g_job_id = uuid_of 0, g_image_url = ''https://r2.dev/1.png'',
                 g_prompt = ''a red apple'', g_model = ''flux-schnell'', g_created_at = 3000\<rparr>],
             IMAGE_QUEUE = [ex_msg]\<rparr>,
           running = [\<lparr>inv_msg = ex_msg, inv_env = ex_ce ''g1'' (Inr ''https://r2.dev/1.png''),
                       inv_pc = Acked\<rparr>,
                      \<lparr>inv_msg = ex_msg, inv_env = ex_ce ''g2'' (Inr ''https://r2.dev/2.png''),
                       inv_pc = Step2\<rparr>]\<rparr>"
  unfolding ex_run_redelivered
  by (simp add: ex_eval)

theorem status_steps_witness:
  "run ex_trace_redelivered init_system \<noteq> None \<and>
   status_of (the (run ex_trace_redelivered init_system)) (uuid_of 0) = Some Completed \<and>
   inv_pc (running (the (run ex_trace_redelivered init_system)) ! 1) = Step1 \<and>
   m_jobId (inv_msg (running (the (run ex_trace_redelivered init_system)) ! 1)) = uuid_of 0 \<and>
   map_option (\<lambda>s. status_of s (uuid_of 0))
     (sys_step (Advance 1) (the (run ex_trace_redelivered init_system))) = Some (Some Processing)"
proof -
  have r: "run ex_trace_redelivered init_system = Some (the (run ex_trace_redelivered init_system))"
    by (simp add: ex_run_redelivered)
  from status_steps [OF r ex_step_redelivered, of "uuid_of 0"]
  show ?thesis
    unfolding ex_step_redelivered unfolding ex_run_redelivered
    by (simp add: status_of_def ex_msg_def)
qed

text \<open>
  C1 as stated fails. A job is created, delivered and processed to \<open>completed\<close>; the same
  message is delivered again; Step 1 of the second delivery sets the status of the
  completed job to \<open>processing\<close>.
\<close>

theorem completed_not_final_counterexample:
  "map_option (\<lambda>s. status_of s (uuid_of 0)) (run ex_trace_redelivered init_system)
     = Some (Some Completed) \<and>
   map_option (\<lambda>s. status_of s (uuid_of 0)) (run (ex_trace_redelivered @ [Advance 1]) init_system)
     = Some (Some Processing)"
  unfolding run_append ex_run_redelivered
  by (simp add: ex_eval)

text \<open>
  Within one delivery as well: Step 4 sets \<open>completed\<close>, the INSERT of Step 5 throws, and
  the \<open>catch\<close> block sets \<open>failed\<close>.
\<close>

lemma ex_completed_then_failed_in_one_delivery:
  "map_option (\<lambda>s. (status_of s (uuid_of 0), map inv_pc (running s)))
     (run ex_trace_insert_throws init_system)
     = Some (Some Completed, [Step5 ''https://r2.dev/1.png'']) \<and>
   map_option (\<lambda>s. (status_of s (uuid_of 0), map inv_pc (running s), generations (sys_env s)))
     (run (ex_trace_insert_throws @ [Advance 0, Advance 0]) init_system)
     = Some (Some Failed, [Retried], [])"
  unfolding ex_trace_insert_throws_def
  by (simp add: sys_step_def init_system_def ex_generate_one)
     (simp add: ex_eval)

text \<open>
  C3, as the code has it. In every reachable state of the store a job with status
  \<open>completed\<close> has an image URL, a job with status \<open>failed\<close> has an error, and a job with
  status \<open>pending\<close> has neither. The converses do not hold: no UPDATE clears \<open>image_url\<close>
  or \<open>error\<close>.
\<close>

theorem job_fields_consistent:
  assumes "run evs init_system = Some s" and "r \<in> set (generation_jobs (sys_env s))"
  shows "(j_status r = Completed \<longrightarrow> j_image_url r \<noteq> None) \<and>
         (j_status r = Failed \<longrightarrow> j_error r \<noteq> None) \<and>
         (j_status r = Pending \<longrightarrow> j_image_url r = None \<and> j_error r = None)"
  using sys_inv_reachable [OF assms(1)] assms(2)
  unfolding sys_inv_def job_fields_ok_def by blast

lemma ex_run_failed_then_completed:
  "run ex_trace_failed_then_completed init_system =
     Some \<lparr>sys_env =
            \<lparr>generation_jobs =
               [\<lparr>j_id = uuid_of 0, j_status = Completed, j_prompt = ''a red apple'',
                 j_model = ''flux-schnell'', j_image_url = Some ''https://r2.dev/2.png'',
                 j_error = Some ''Image upload failed: Unknown error'',
                 j_created_at = 1000, j_updated_at = 3000\<rparr>],
             generations =
               [\<lparr>g_id = ''g2'', g_job_id = uuid_of 0, g_image_url = ''https://r2.dev/2.png'',
                 g_prompt = ''a red apple'', g_model = ''flux-schnell'', g_created_at = 3000\<rparr>],
             IMAGE_QUEUE = [ex_msg]\<rparr>,
           running = [\<lparr>inv_msg = ex_msg,
                       inv_env = ex_ce ''g1'' (Inl ''Image upload failed: Unknown error''),
                       inv_pc = Retried\<rparr>,
                      \<lparr>inv_msg = ex_msg, inv_env = ex_ce ''g2'' (Inr ''https://r2.dev/2.png''),
                       inv_pc = Acked\<rparr>]\<rparr>"
  unfolding ex_trace_failed_then_completed_def
  by (simp add: sys_step_def init_system_def ex_generate_one)
     (simp add: ex_eval)

theorem job_fields_consistent_witness:
  "run ex_trace_failed_then_completed init_system \<noteq> None \<and>
   map (\<lambda>r. (j_status r, j_image_url r))
     (generation_jobs (sys_env (the (run ex_trace_failed_then_completed init_system))))
   = [(Completed, Some ''https://r2.dev/2.png'')]"
proof -
  let ?s = "the (run ex_trace_failed_then_completed init_system)"
  let ?r = "hd (generation_jobs (sys_env ?s))"
  have r: "run ex_trace_failed_then_completed init_system = Some ?s"
    by (simp add: ex_run_failed_then_completed)
  have m: "?r \<in> set (generation_jobs (sys_env ?s))"
    by (simp add: ex_run_failed_then_completed)
  from job_fields_consistent [OF r m]
  show ?thesis
    by (simp add: ex_run_failed_then_completed)
qed

text \<open>
  C3 as stated fails. The upload of the first delivery fails, so the job is marked
  \<open>failed\<close> with an error; the retry succeeds and marks it \<open>completed\<close>. The row then has
  status \<open>completed\<close> and a non-null error.
\<close>

theorem error_kept_after_retry_counterexample:
  "map_option (\<lambda>s. map (\<lambda>r. (j_status r, j_image_url r, j_error r)) (generation_jobs (sys_env s)))
     (run ex_trace_failed_then_completed init_system)
   = Some [(Completed, Some ''https://r2.dev/2.png'', Some ''Image upload failed: Unknown error'')]"
  by (simp add: ex_run_failed_then_completed)

lemma length_filter_conj: "length (filter (\<lambda>x. P x \<and> Q x) xs) \<le> length (filter P xs)"
  by (induction xs) auto

text \<open>
  C2, as the code has it. In every reachable execution the number of Generation records
  that reference a job equals the number of deliveries of its message that have run
  through Step 5 to \<open>message.ack()\<close>, one record per such delivery and not one per job, so
  it is at most the number of deliveries; and every record references an existing job
  whose image URL has been set by Step 4.
\<close>

theorem generations_per_delivery:
  assumes "run evs init_system = Some s"
  shows "length (filter (\<lambda>g. g_job_id g = j) (generations (sys_env s))) =
           length (filter (\<lambda>v. m_jobId (inv_msg v) = j \<and> inv_pc v = Acked) (running s))
       \<and> length (filter (\<lambda>g. g_job_id g = j) (generations (sys_env s))) \<le>
           length (filter (\<lambda>v. m_jobId (inv_msg v) = j) (running s))
       \<and> (\<forall>g \<in> set (generations (sys_env s)).
            \<exists>r \<in> set (generation_jobs (sys_env s)). j_id r = g_job_id g \<and> j_image_url r \<noteq> None)"
proof -
  have inv: "sys_inv s" using assms by (rule sys_inv_reachable)
  have eq: "length (filter (\<lambda>g. g_job_id g = j) (generations (sys_env s))) =
           length (filter (\<lambda>v. m_jobId (inv_msg v) = j \<and> inv_pc v = Acked) (running s))"
    using inv unfolding sys_inv_def acked_for_def by blast
  have "length (filter (\<lambda>v. m_jobId (inv_msg v) = j \<and> inv_pc v = Acked) (running s)) \<le>
             length (filter (\<lambda>v. m_jobId (inv_msg v) = j) (running s))"
    by (rule length_filter_conj)
  then show ?thesis
    using eq inv unfolding sys_inv_def by simp
qed

lemma ex_run_twice:
  "run ex_trace_twice init_system =
     Some \<lparr>sys_env =
            \<lparr>generation_jobs =
               [\<lparr>j_id = uuid_of 0, j_status = Completed, j_prompt = ''a red apple'',
                 j_model = ''flux-schnell'', j_image_url = Some ''https://r2.dev/2.png'',
                 j_error = None, j_created_at = 1000, j_updated_at = 3000\<rparr>],
             generations =
               [\<lparr>g_id = ''g1'', g_job_id = uuid_of 0, g_image_url = ''https://r2.dev/1.png'',
                 g_prompt = ''a red apple'', g_model = ''flux-schnell'', g_created_at = 3000\<rparr>,
                \<lparr>g_id = ''g2'', g_job_id = uuid_of 0, g_image_url = ''https://r2.dev/2.png'',
                 g_prompt = ''a red apple'', g_model = ''flux-schnell'', g_created_at = 3000\<rparr>],
             IMAGE_QUEUE = [ex_msg]\<rparr>,
           running = [\<lparr>inv_msg = ex_msg, inv_env = ex_ce ''g1'' (Inr ''https://r2.dev/1.png''),
                       inv_pc = Acked\<rparr>,
                      \<lparr>inv_msg = ex_msg, inv_env = ex_ce ''g2'' (Inr ''https://r2.dev/2.png''),
                       inv_pc = Acked\<rparr>]\<rparr>"
  unfolding ex_trace_twice_def run_append ex_run_redelivered
  by (simp add: ex_eval)

theorem generations_per_delivery_witness:
  "run ex_trace_twice init_system \<noteq> None \<and>
   length (filter (\<lambda>g. g_job_id g = uuid_of 0)
     (generations (sys_env (the (run ex_trace_twice init_system))))) = 2 \<and>
   length (filter (\<lambda>v. m_jobId (inv_msg v) = uuid_of 0)
     (running (the (run ex_trace_twice init_system)))) = 2"
proof -
  have r: "run ex_trace_twice init_system = Some (the (run ex_trace_twice init_system))"
    by (simp add: ex_run_twice)
  from generations_per_delivery [OF r, of "uuid_of 0"]
  show ?thesis
    by (simp add: ex_run_twice ex_msg_def)
qed

text \<open>
  C2 as stated fails. After the job is \<open>completed\<close> with one Generation record, the same
  message is delivered and processed a second time: the archive then holds two records
  for the job, and the job row carries the URL of the second run.
\<close>

theorem duplicate_generation_counterexample:
  "map_option (\<lambda>s. (status_of s (uuid_of 0), map g_job_id (generations (sys_env s))))
     (run ex_trace_redelivered init_system)
     = Some (Some Completed, [uuid_of 0]) \<and>
   map_option (\<lambda>s. (status_of s (uuid_of 0), map g_job_id (generations (sys_env s)),
                     map g_id (generations (sys_env s)), map j_image_url (generation_jobs (sys_env s))))
     (run ex_trace_twice init_system)
     = Some (Some Completed, [uuid_of 0, uuid_of 0], [''g1'', ''g2''], [Some ''https://r2.dev/2.png''])"
  by (simp add: ex_run_redelivered ex_run_twice status_of_def)

end
